theory Spec2Isabelle
  imports Complex_Main "HOL-Library.Word"
begin

section \<open>Shallow embedding of \<open>src/services/simplify-node-response.ts\<close>\<close>

text \<open>
  The module turns a raw design document tree into a simplified tree. The embedding
  follows the source function by function: \<open>convertColor\<close>, \<open>parsePaint\<close> and
  \<open>parseNode\<close>.

  Conventions of the embedding.
  \<^item> A JavaScript number is a double. It is modelled as the rational it denotes
    (\<open>rat\<close>). The operators \<open>*\<close> and \<open>/\<close> of the source are \<open>fmul\<close> and \<open>fdiv\<close>: the
    exact result rounded to the nearest double, a tie going to the even significand,
    as IEEE 754 has it. \<open>NaN\<close>, the infinities (so a result beyond the largest double)
    and the sign of zero are outside the model.
  \<^item> A template literal \<open>`${x}em`\<close> is kept as the pair of the number and the literal
    suffix (\<open>NumStr x ''em''\<close>); the decimal rendering of the number is not modelled.
  \<^item> A thrown exception is the left summand of the result type.
  \<^item> An optional property is an \<open>option\<close>; \<open>None\<close> is a missing key or \<open>undefined\<close>.
  \<^item> The layout collaborator \<open>buildSimplifiedLayout\<close> is a parameter of \<open>parseNode\<close>,
    and its result type a type parameter of the simplified node.
\<close>

subsection \<open>Numbers, strings and errors\<close>

type_synonym number = rat

datatype numstr = NumStr number string

datatype error =
    UnknownPaintType string  \<comment> \<open>\<open>throw new Error(`Unknown paint type: ${raw.type}`)\<close>\<close>
  | TypeError                \<comment> \<open>reading a property of \<open>undefined\<close>\<close>

text \<open>\<open>Math.round\<close>: the nearest integer, a tie going towards plus infinity.\<close>

definition Math_round :: "number \<Rightarrow> int" where
  "Math_round x = \<lfloor>x + 1 / 2\<rfloor>"

subsection \<open>Double arithmetic\<close>

text \<open>The nearest integer, a tie going to the even one.\<close>

definition roundEven :: "rat \<Rightarrow> int" where
  "roundEven y =
     (let f = \<lfloor>y\<rfloor>; d = y - of_int f
      in if d < 1 / 2 then f else if 1 / 2 < d then f + 1 else if even f then f else f + 1)"

text \<open>
  The binary exponent of a positive number: for \<open>1 \<le> x\<close> the \<open>e\<close> with
  \<open>2 ^ e \<le> x < 2 ^ (e + 1)\<close>, for \<open>x < 1\<close> the \<open>k\<close> with \<open>1 / 2 ^ k \<le> x < 2 / 2 ^ k\<close>.
\<close>

function expUp :: "rat \<Rightarrow> nat" where
  "expUp x = (if x < 2 then 0 else Suc (expUp (x / 2)))"
  by pat_completeness auto
termination
proof (relation "measure (\<lambda>x. nat \<lfloor>x\<rfloor>)")
  show "wf (measure (\<lambda>x::rat. nat \<lfloor>x\<rfloor>))" by simp
next
  fix x :: rat
  assume "\<not> x < 2"
  then have "x / 2 \<le> x - 1" by simp
  then have "\<lfloor>x / 2\<rfloor> \<le> \<lfloor>x - 1\<rfloor>" by (rule floor_mono)
  moreover have "1 \<le> \<lfloor>x\<rfloor>" using \<open>\<not> x < 2\<close> by (simp add: le_floor_iff)
  ultimately show "(x / 2, x) \<in> measure (\<lambda>x. nat \<lfloor>x\<rfloor>)" by simp
qed

function expDown :: "rat \<Rightarrow> nat" where
  "expDown x = (if x \<le> 0 \<or> 1 \<le> x then 0 else Suc (expDown (2 * x)))"
  by pat_completeness auto
termination
proof (relation "measure (\<lambda>x. nat \<lceil>1 / x\<rceil>)")
  show "wf (measure (\<lambda>x::rat. nat \<lceil>1 / x\<rceil>))" by simp
next
  fix x :: rat
  assume "\<not> (x \<le> 0 \<or> 1 \<le> x)"
  then have x: "0 < x" "x < 1" by simp_all
  then have y: "1 < 1 / x" by simp
  then have c: "2 \<le> \<lceil>1 / x\<rceil>" by (simp add: ceiling_less_iff not_less [symmetric] less_ceiling_iff)
  have "1 / (2 * x) = (1 / x) / 2" by simp
  also have "\<dots> \<le> of_int \<lceil>1 / x\<rceil> / 2" by (simp add: divide_right_mono)
  also have "\<dots> \<le> of_int (\<lceil>1 / x\<rceil> - 1)" using c by simp
  finally have "\<lceil>1 / (2 * x)\<rceil> \<le> \<lceil>1 / x\<rceil> - 1" by (rule ceiling_le)
  with c have "nat \<lceil>1 / (2 * x)\<rceil> < nat \<lceil>1 / x\<rceil>" by linarith
  then show "(2 * x, x) \<in> measure (\<lambda>x. nat \<lceil>1 / x\<rceil>)" by (simp only: in_measure)
qed

declare expUp.simps [simp del] expDown.simps [simp del]

text \<open>
  Rounding a positive number to a double: the significand has 53 bits, so a number
  with binary exponent \<open>e\<close> is rounded to a multiple of \<open>2 ^ (e - 52)\<close>; below
  \<open>1 / 2 ^ 1022\<close> (the subnormal numbers) to a multiple of \<open>1 / 2 ^ 1074\<close>.
\<close>

definition flPos :: "rat \<Rightarrow> rat" where
  "flPos x =
     (if 1 \<le> x then
        (let e = expUp x
         in if 52 \<le> e then of_int (roundEven (x / 2 ^ (e - 52))) * 2 ^ (e - 52)
            else of_int (roundEven (x * 2 ^ (52 - e))) / 2 ^ (52 - e))
      else
        (let k = 52 + min (expDown x) 1022
         in of_int (roundEven (x * 2 ^ k)) / 2 ^ k))"

definition fl :: "rat \<Rightarrow> rat" where
  "fl x = (if x = 0 then 0 else if 0 < x then flPos x else - flPos (- x))"

text \<open>The operators \<open>*\<close> and \<open>/\<close> on doubles.\<close>

definition fmul :: "number \<Rightarrow> number \<Rightarrow> number" where
  "fmul x y = fl (x * y)"

definition fdiv :: "number \<Rightarrow> number \<Rightarrow> number" where
  "fdiv x y = fl (x / y)"

subsection \<open>Integer and string operations\<close>

text \<open>
  \<open>x << n\<close>: the left operand is taken to a signed 32-bit integer, the shift count is
  masked to five bits, and the result is read back as a signed 32-bit integer.
\<close>

definition shl :: "int \<Rightarrow> nat \<Rightarrow> int" where
  "shl x n = sint (push_bit (n mod 32) (word_of_int x :: 32 word))"

text \<open>\<open>Number.prototype.toString(16)\<close> on an integer: lower-case digits, a minus sign
  in front of a negative number.\<close>

definition hexDigit :: "nat \<Rightarrow> char" where
  "hexDigit d = ''0123456789abcdef'' ! d"

fun hexDigits :: "nat \<Rightarrow> string" where
  "hexDigits n = (if n < 16 then [hexDigit n] else hexDigits (n div 16) @ [hexDigit (n mod 16)])"

declare hexDigits.simps [simp del]

definition toString16 :: "int \<Rightarrow> string" where
  "toString16 i = (if i < 0 then CHR ''-'' # hexDigits (nat (- i)) else hexDigits (nat i))"

definition upperChar :: "char \<Rightarrow> char" where
  "upperChar c =
     (case map_of (zip ''abcdefghijklmnopqrstuvwxyz'' ''ABCDEFGHIJKLMNOPQRSTUVWXYZ'') c of
        Some u \<Rightarrow> u
      | None \<Rightarrow> c)"

definition toUpperCase :: "string \<Rightarrow> string" where
  "toUpperCase s = map upperChar s"

definition slice :: "nat \<Rightarrow> string \<Rightarrow> string" where
  "slice k s = drop k s"

text \<open>\<open>xs.map(f)\<close> for an \<open>f\<close> that may throw: the first exception ends the loop.\<close>

primrec mapE :: "('a \<Rightarrow> error + 'b) \<Rightarrow> 'a list \<Rightarrow> error + 'b list" where
  "mapE f [] = Inr []"
| "mapE f (x # xs) =
     (case f x of
        Inl e \<Rightarrow> Inl e
      | Inr y \<Rightarrow> (case mapE f xs of Inl e \<Rightarrow> Inl e | Inr ys \<Rightarrow> Inr (y # ys)))"

lemma mapE_cong [fundef_cong]:
  "xs = ys \<Longrightarrow> (\<And>x. x \<in> set ys \<Longrightarrow> f x = g x) \<Longrightarrow> mapE f xs = mapE g ys"
  by (induction ys arbitrary: xs) (auto split: sum.splits)

subsection \<open>Colours\<close>

record RGBA =
  rgba_r :: number
  rgba_g :: number
  rgba_b :: number
  rgba_a :: number

record ColorValue =
  cv_hex :: string
  cv_opacity :: number

text \<open>
  \<open>convertColor(color: RGBA, opacity = 1)\<close>. The default parameter is the \<open>None\<close> case
  of the second argument. The first statement reads \<open>color.r\<close>: on a colour that is
  \<open>undefined\<close> this is the \<open>TypeError\<close>.
\<close>

definition convertColor :: "RGBA option \<Rightarrow> number option \<Rightarrow> error + ColorValue" where
  "convertColor color_arg opacity_arg =
     (case color_arg of
        None \<Rightarrow> Inl TypeError
      | Some color \<Rightarrow>
          let opacity = (case opacity_arg of None \<Rightarrow> 1 | Some v \<Rightarrow> v);
              r = Math_round (fmul (rgba_r color) 255);
              g = Math_round (fmul (rgba_g color) 255);
              b = Math_round (fmul (rgba_b color) 255);
              a = fdiv (of_int (Math_round (fmul (fmul opacity (rgba_a color)) 100))) 100;
              hex = ''#'' @ toUpperCase (slice 1 (toString16 (shl 1 24 + shl r 16 + shl g 8 + b)))
          in Inr \<lparr>cv_hex = hex, cv_opacity = a\<rparr>)"

subsection \<open>Paints\<close>

record Vector =
  vec_x :: number
  vec_y :: number

record ColorStop =
  stop_position :: number
  stop_color :: "RGBA option"

text \<open>
  A raw paint. The tag is a string, so that a tag the code does not know can be
  written down. The fields of the other paint kinds are simply unused. The fields
  that the source dereferences are optional, so that their absence is an input: the
  colour of a solid paint (\<open>raw.color!\<close>), the stop list of a gradient paint
  (\<open>raw.gradientStops.map\<close>) and the colour of a stop.
\<close>

record Paint =
  p_type :: string
  p_imageRef :: "string option"
  p_scaleMode :: "string option"
  p_color :: "RGBA option"
  p_opacity :: "number option"
  p_gradientHandlePositions :: "Vector list option"
  p_gradientStops :: "ColorStop list option"

record GradientStop =
  gs_position :: number
  gs_color :: ColorValue

record SimplifiedFill =
  f_type :: string
  f_hex :: "string option"
  f_opacity :: "number option"
  f_imageRef :: "string option"
  f_scaleMode :: "string option"
  f_gradientHandlePositions :: "Vector list option"
  f_gradientStops :: "GradientStop list option"

definition emptyFill :: "string \<Rightarrow> SimplifiedFill" where
  "emptyFill t = \<lparr>f_type = t, f_hex = None, f_opacity = None, f_imageRef = None,
     f_scaleMode = None, f_gradientHandlePositions = None, f_gradientStops = None\<rparr>"

definition gradientTypes :: "string list" where
  "gradientTypes = [''GRADIENT_LINEAR'', ''GRADIENT_RADIAL'', ''GRADIENT_ANGULAR'', ''GRADIENT_DIAMOND'']"

text \<open>The arrow function of lines 242 to 245, applied to one gradient stop.\<close>

definition parseGradientStop :: "ColorStop \<Rightarrow> error + GradientStop" where
  "parseGradientStop s =
     (case convertColor (stop_color s) None of
        Inl e \<Rightarrow> Inl e
      | Inr cv \<Rightarrow> Inr \<lparr>gs_position = stop_position s, gs_color = cv\<rparr>)"

text \<open>
  \<open>parsePaint\<close>. In the gradient branch \<open>raw.gradientStops.map\<close> on a paint without a
  stop list is a \<open>TypeError\<close>.
\<close>

definition parsePaint :: "Paint \<Rightarrow> error + SimplifiedFill" where
  "parsePaint raw =
     (if p_type raw = ''IMAGE'' then
        Inr ((emptyFill ''IMAGE'') \<lparr>f_imageRef := p_imageRef raw, f_scaleMode := p_scaleMode raw\<rparr>)
      else if p_type raw = ''SOLID'' then
        (case convertColor (p_color raw) (p_opacity raw) of
           Inl e \<Rightarrow> Inl e
         | Inr cv \<Rightarrow>
             Inr ((emptyFill ''SOLID'') \<lparr>f_hex := Some (cv_hex cv), f_opacity := Some (cv_opacity cv)\<rparr>))
      else if List.member gradientTypes (p_type raw) then
        (case p_gradientStops raw of
           None \<Rightarrow> Inl TypeError
         | Some gradientStops \<Rightarrow>
             (case mapE parseGradientStop gradientStops of
                Inl e \<Rightarrow> Inl e
              | Inr stops \<Rightarrow>
                  Inr ((emptyFill (p_type raw))
                    \<lparr>f_gradientHandlePositions := p_gradientHandlePositions raw,
                     f_gradientStops := Some stops\<rparr>)))
      else Inl (UnknownPaintType (p_type raw)))"

subsection \<open>Raw nodes\<close>

text \<open>
  A property of a raw node that the code tests at run time (\<open>Array.isArray\<close>,
  \<open>typeof v === "number"\<close>) holds either a value that passes the test or some other
  value.
\<close>

datatype 'a dyn =
    Typed 'a   \<comment> \<open>a value of the tested type\<close>
  | Other      \<comment> \<open>any other value, for instance \<open>null\<close> or a string\<close>

record TypeStyle =
  st_fontFamily :: "string option"
  st_fontWeight :: "number option"
  st_fontSize :: "number option"
  st_lineHeightPx :: "number option"
  st_letterSpacing :: "number option"
  st_textCase :: "string option"
  st_textAlignHorizontal :: "string option"
  st_textAlignVertical :: "string option"

record RawStrokeWeights =
  rsw_top :: "number dyn option"
  rsw_right :: "number dyn option"
  rsw_bottom :: "number dyn option"
  rsw_left :: "number dyn option"

datatype node = Node
  (n_id: string)
  (n_name: string)
  (n_type: string)
  (n_characters: "string option")
  (n_style: "TypeStyle option")
  (n_fills: "Paint list dyn option")
  (n_strokes: "Paint list dyn option")
  (n_strokeWeight: "number dyn option")
  (n_strokeDashes: "number list dyn option")
  (n_individualStrokeWeights: "RawStrokeWeights option")
  (n_opacity: "number dyn option")
  (n_cornerRadius: "number dyn option")
  (n_children: "node list option")

subsection \<open>Simplified nodes\<close>

record BoundingBox =
  bb_x :: number
  bb_y :: number
  bb_width :: number
  bb_height :: number

record TextStyle =
  ts_fontFamily :: "string option"
  ts_fontWeight :: "number option"
  ts_fontSize :: "number option"
  ts_lineHeight :: "numstr option"
  ts_letterSpacing :: "numstr option"
  ts_textCase :: "string option"
  ts_textAlignHorizontal :: "string option"
  ts_textAlignVertical :: "string option"

record StrokeWeights =
  sw_top :: number
  sw_right :: number
  sw_bottom :: number
  sw_left :: number

text \<open>
  \<open>SimplifiedNode\<close>. The layout descriptor is the result type \<open>'l\<close> of the layout
  collaborator, which this module does not look into.
\<close>

datatype 'l SimplifiedNode = SimplifiedNode
  (s_id: string)
  (s_name: string)
  (s_type: string)
  (s_boundingBox: "BoundingBox option")
  (s_text: "string option")
  (s_textStyle: "TextStyle option")
  (s_fills: "SimplifiedFill list option")
  (s_strokes: "SimplifiedFill list option")
  (s_opacity: "number option")
  (s_borderRadius: "numstr option")
  (s_layout: "'l option")
  (s_strokeWeight: "number option")
  (s_strokeDashes: "number list option")
  (s_individualStrokeWeights: "StrokeWeights option")
  (s_children: "'l SimplifiedNode list option")

subsection \<open>Helpers of \<open>~/utils/identity\<close>\<close>

text \<open>
  Modelled from the spec: \<open>hasValue\<close>, \<open>isTruthy\<close> and \<open>isStrokeWeights\<close> are imported
  from \<open>~/utils/identity\<close>, which is not among the sources. The spec has: a field is
  taken when "the source field exists"; text content when it "is non-empty"; per-side
  stroke weights when "all four sides [are] present and numeric". \<open>hasValue\<close> is a
  type guard: the model returns the narrowed value.
\<close>

definition hasValue :: "('a \<Rightarrow> bool) \<Rightarrow> 'a option \<Rightarrow> 'a option" where
  "hasValue typeGuard v =
     (case v of None \<Rightarrow> None | Some x \<Rightarrow> if typeGuard x then Some x else None)"

definition anyValue :: "'a \<Rightarrow> bool" where
  "anyValue x = True"

definition isTruthy :: "string \<Rightarrow> bool" where
  "isTruthy s = (s \<noteq> [])"

definition isNumber :: "number dyn option \<Rightarrow> bool" where
  "isNumber v = (case v of Some (Typed x) \<Rightarrow> True | _ \<Rightarrow> False)"

definition isStrokeWeights :: "RawStrokeWeights \<Rightarrow> bool" where
  "isStrokeWeights w =
     (isNumber (rsw_top w) \<and> isNumber (rsw_right w) \<and> isNumber (rsw_bottom w) \<and> isNumber (rsw_left w))"

text \<open>Truthiness of an optional number: \<open>undefined\<close> and \<open>0\<close> are falsy.\<close>

definition truthy :: "number option \<Rightarrow> bool" where
  "truthy v = (case v of None \<Rightarrow> False | Some x \<Rightarrow> x \<noteq> 0)"

subsection \<open>\<open>parseNode\<close>\<close>

lemma size_child [termination_simp]:
  "hasValue anyValue (n_children n) = Some cs \<Longrightarrow> c \<in> set cs \<Longrightarrow> size c < size n"
proof -
  assume "hasValue anyValue (n_children n) = Some cs" and c: "c \<in> set cs"
  then have "n_children n = Some cs"
    by (simp add: hasValue_def anyValue_def split: option.splits)
  moreover have "size c \<le> size_list size cs"
    using c by (rule size_list_estimation') simp
  ultimately show ?thesis by (cases n) simp
qed

lemma size_child_direct [termination_simp]:
  "n_children n = Some cs \<Longrightarrow> c \<in> set cs \<Longrightarrow> size c < size n"
  by (rule size_child) (simp_all add: hasValue_def anyValue_def)

text \<open>The text style of a node: lines 150 to 168 of the source.\<close>

definition parseTextStyle :: "TypeStyle \<Rightarrow> TextStyle" where
  "parseTextStyle style =
     \<lparr>ts_fontFamily = st_fontFamily style,
      ts_fontWeight = st_fontWeight style,
      ts_fontSize = st_fontSize style,
      ts_lineHeight =
        (if truthy (st_lineHeightPx style) \<and> truthy (st_fontSize style)
         then Some (NumStr (fdiv (the (st_lineHeightPx style)) (the (st_fontSize style))) ''em'')
         else None),
      ts_letterSpacing =
        (if truthy (st_letterSpacing style) \<and> st_letterSpacing style \<noteq> Some 0 \<and> truthy (st_fontSize style)
         then Some (NumStr (fmul (fdiv (the (st_letterSpacing style)) (the (st_fontSize style))) 100) ''%'')
         else None),
      ts_textCase = st_textCase style,
      ts_textAlignHorizontal = st_textAlignHorizontal style,
      ts_textAlignVertical = st_textAlignVertical style\<rparr>"

text \<open>\<open>hasValue(k, n) && Array.isArray(n[k])\<close> followed by \<open>n[k].map(parsePaint)\<close>:
  lines 171 to 176.\<close>

definition parsePaints :: "Paint list dyn option \<Rightarrow> error + SimplifiedFill list option" where
  "parsePaints v =
     (case hasValue anyValue v of
        Some (Typed ps) \<Rightarrow> (case mapE parsePaint ps of Inl e \<Rightarrow> Inl e | Inr fs \<Rightarrow> Inr (Some fs))
      | _ \<Rightarrow> Inr None)"

definition typedValue :: "'a dyn option \<Rightarrow> 'a option" where
  "typedValue v = (case hasValue anyValue v of Some (Typed x) \<Rightarrow> Some x | _ \<Rightarrow> None)"

definition parseStrokeWeights :: "RawStrokeWeights \<Rightarrow> StrokeWeights" where
  "parseStrokeWeights w =
     \<lparr>sw_top = the (typedValue (rsw_top w)), sw_right = the (typedValue (rsw_right w)),
      sw_bottom = the (typedValue (rsw_bottom w)), sw_left = the (typedValue (rsw_left w))\<rparr>"

text \<open>\<open>xs?.length\<close> as a condition: \<open>undefined\<close> and \<open>0\<close> are both falsy.\<close>

definition optLength :: "'a list option \<Rightarrow> nat" where
  "optLength v = (case v of None \<Rightarrow> 0 | Some xs \<Rightarrow> length xs)"

text \<open>
  \<open>parseNode\<close>, with the layout collaborator \<open>buildSimplifiedLayout\<close> (imported from
  \<open>~/transformers/layout\<close>) as a parameter. The statements of the source that can
  throw run in the order fills, strokes, children; the other attributes are values.
\<close>

fun parseNode :: "(node \<Rightarrow> node option \<Rightarrow> 'l) \<Rightarrow> node \<Rightarrow> node option \<Rightarrow> error + 'l SimplifiedNode" where
  "parseNode buildSimplifiedLayout n parent =
     (case parsePaints (n_fills n) of
        Inl e \<Rightarrow> Inl e
      | Inr fills \<Rightarrow>
     (case parsePaints (n_strokes n) of
        Inl e \<Rightarrow> Inl e
      | Inr strokes \<Rightarrow>
     (case (case hasValue anyValue (n_children n) of
              None \<Rightarrow> Inr None
            | Some cs \<Rightarrow>
                if length cs > 0
                then (case mapE (\<lambda>child. parseNode buildSimplifiedLayout child (Some n)) cs of
                        Inl e \<Rightarrow> Inl e
                      | Inr ss \<Rightarrow> Inr (Some ss))
                else Inr None) of
        Inl e \<Rightarrow> Inl e
      | Inr children \<Rightarrow>
          Inr (SimplifiedNode
            (n_id n)
            (n_name n)
            (n_type n)
            None
            (hasValue isTruthy (n_characters n))
            (map_option parseTextStyle (hasValue anyValue (n_style n)))
            fills
            strokes
            (typedValue (n_opacity n))
            (map_option (\<lambda>x. NumStr x ''px'') (typedValue (n_cornerRadius n)))
            (Some (buildSimplifiedLayout n parent))
            (case typedValue (n_strokeWeight n) of
               None \<Rightarrow> None
             | Some w \<Rightarrow> if optLength strokes > 0 then Some w else None)
            (typedValue (n_strokeDashes n))
            (map_option parseStrokeWeights (hasValue isStrokeWeights (n_individualStrokeWeights n)))
            children))))"

declare parseNode.simps [simp del]

text \<open>The children step of \<open>parseNode\<close> (lines 211 to 213), named for the proofs.\<close>

definition parseChildren :: "(node \<Rightarrow> node option \<Rightarrow> 'l) \<Rightarrow> node \<Rightarrow> error + 'l SimplifiedNode list option" where
  "parseChildren L n =
     (case hasValue anyValue (n_children n) of
        None \<Rightarrow> Inr None
      | Some cs \<Rightarrow>
          if length cs > 0
          then (case mapE (\<lambda>child. parseNode L child (Some n)) cs of
                  Inl e \<Rightarrow> Inl e
                | Inr ss \<Rightarrow> Inr (Some ss))
          else Inr None)"

section \<open>The specification's notions\<close>

text \<open>
  The tags the specification lists as recognized: solid, image and the four gradient
  kinds.
\<close>

definition recognizedPaintTypes :: "string list" where
  "recognizedPaintTypes =
     [''SOLID'', ''IMAGE'', ''GRADIENT_LINEAR'', ''GRADIENT_RADIAL'', ''GRADIENT_ANGULAR'', ''GRADIENT_DIAMOND'']"

text \<open>A channel value between 0 and 255 as two upper-case hexadecimal digits, zero-padded.\<close>

definition hexByte :: "int \<Rightarrow> string" where
  "hexByte n = [''0123456789ABCDEF'' ! nat (n div 16), ''0123456789ABCDEF'' ! nat (n mod 16)]"

text \<open>Rounding half up: down below the half, up from the half on.\<close>

definition roundHalfUp :: "rat \<Rightarrow> int" where
  "roundHalfUp x = (if frac x < 1 / 2 then \<lfloor>x\<rfloor> else \<lfloor>x\<rfloor> + 1)"

text \<open>
  The string \<open>#RRGGBB\<close> of a colour: each of the three channels scaled by 255 (in the
  arithmetic of the program), rounded half up and written as a byte.
\<close>

definition hexColor :: "RGBA \<Rightarrow> string" where
  "hexColor c =
     ''#'' @ hexByte (roundHalfUp (fmul (rgba_r c) 255)) @ hexByte (roundHalfUp (fmul (rgba_g c) 255))
       @ hexByte (roundHalfUp (fmul (rgba_b c) 255))"

text \<open>
  Rounding to two decimal places, in the arithmetic of the program: times 100, to the
  integer half up, by 100.
\<close>

definition roundTo2 :: "number \<Rightarrow> number" where
  "roundTo2 x = fdiv (of_int (roundHalfUp (fmul x 100))) 100"

text \<open>
  A paint carries the fields that its kind requires: a solid paint its colour, a
  gradient paint its stop list, with a colour on every stop.
\<close>

definition hasRequiredFields :: "Paint \<Rightarrow> bool" where
  "hasRequiredFields p =
     (if p_type p = ''SOLID'' then p_color p \<noteq> None
      else if List.member gradientTypes (p_type p) then
        (case p_gradientStops p of
           None \<Rightarrow> False
         | Some stops \<Rightarrow> list_all (\<lambda>s. stop_color s \<noteq> None) stops)
      else True)"

text \<open>
  The paints of a tree: those of the fills and strokes of the node, where these are
  lists, and those of its children, at any depth.
\<close>

definition typedList :: "'a list dyn option \<Rightarrow> 'a list" where
  "typedList v = (case v of Some (Typed xs) \<Rightarrow> xs | _ \<Rightarrow> [])"

fun allPaints :: "node \<Rightarrow> Paint list" where
  "allPaints n =
     typedList (n_fills n) @ typedList (n_strokes n)
       @ (case n_children n of None \<Rightarrow> [] | Some cs \<Rightarrow> concat (map allPaints cs))"

declare allPaints.simps [simp del]

section \<open>Example inputs\<close>

definition rgba :: "number \<Rightarrow> number \<Rightarrow> number \<Rightarrow> number \<Rightarrow> RGBA" where
  "rgba r g b a = \<lparr>rgba_r = r, rgba_g = g, rgba_b = b, rgba_a = a\<rparr>"

definition blankPaint :: "string \<Rightarrow> Paint" where
  "blankPaint t = \<lparr>p_type = t, p_imageRef = None, p_scaleMode = None, p_color = None,
     p_opacity = None, p_gradientHandlePositions = None, p_gradientStops = None\<rparr>"

definition solidPaint :: "RGBA \<Rightarrow> Paint" where
  "solidPaint c = (blankPaint ''SOLID'') \<lparr>p_color := Some c\<rparr>"

definition gradientExample :: Paint where
  "gradientExample = (blankPaint ''GRADIENT_RADIAL'')
     \<lparr>p_gradientHandlePositions := Some [\<lparr>vec_x = 0, vec_y = 1 / 2\<rparr>, \<lparr>vec_x = 1, vec_y = 1 / 2\<rparr>],
      p_gradientStops := Some [\<lparr>stop_position = 0, stop_color = Some (rgba 1 0 0 1)\<rparr>,
                               \<lparr>stop_position = 1 / 2, stop_color = Some (rgba 0 1 0 1)\<rparr>,
                               \<lparr>stop_position = 1, stop_color = Some (rgba 0 0 1 (1 / 2))\<rparr>]\<rparr>"

definition noLayout :: "node \<Rightarrow> node option \<Rightarrow> unit" where
  "noLayout n parent = ()"

definition mkNode :: "string \<Rightarrow> TypeStyle option \<Rightarrow> Paint list dyn option \<Rightarrow> Paint list dyn option
    \<Rightarrow> number dyn option \<Rightarrow> node list option \<Rightarrow> node" where
  "mkNode i style fills strokes strokeWeight children =
     Node i ''node'' ''FRAME'' None style fills strokes strokeWeight None None None None children"

definition blankStyle :: TypeStyle where
  "blankStyle = \<lparr>st_fontFamily = None, st_fontWeight = None, st_fontSize = None,
     st_lineHeightPx = None, st_letterSpacing = None, st_textCase = None,
     st_textAlignHorizontal = None, st_textAlignVertical = None\<rparr>"

definition styleExample :: "number option \<Rightarrow> number option \<Rightarrow> number option \<Rightarrow> TypeStyle" where
  "styleExample fontSize lineHeightPx letterSpacing =
     blankStyle \<lparr>st_fontFamily := Some ''Inter'', st_fontSize := fontSize,
                 st_lineHeightPx := lineHeightPx, st_letterSpacing := letterSpacing\<rparr>"

definition mixedFillsExample :: node where
  "mixedFillsExample =
     mkNode ''1'' None (Some (Typed [blankPaint ''SOLID'', blankPaint ''EMOJI''])) None None None"

definition deepExample :: node where
  "deepExample =
     mkNode ''root'' None (Some (Typed [solidPaint (rgba 1 0 0 1)])) None None
       (Some [mkNode ''kid'' None None (Some (Typed [blankPaint ''EMOJI''])) None None])"

text \<open>
  The doubles that the literals \<open>0.3\<close>, \<open>0.015\<close>, \<open>0.7\<close> and \<open>0.35\<close> denote.
\<close>

definition d_0_3 :: number where "d_0_3 = 5404319552844595 / 2 ^ 54"

definition d_0_015 :: number where "d_0_015 = 8646911284551352 / 2 ^ 59"

definition d_0_7 :: number where "d_0_7 = 6305039478318694 / 2 ^ 53"

definition d_0_35 :: number where "d_0_35 = 6305039478318694 / 2 ^ 54"

section \<open>Mapping with errors\<close>

lemma mapE_Inr_iff: "mapE f xs = Inr ys \<longleftrightarrow> map f xs = map Inr ys"
proof (induction xs arbitrary: ys)
  case Nil
  show ?case by auto
next
  case (Cons a xs)
  show ?case
  proof (cases "f a")
    case (Inl e)
    then show ?thesis by auto
  next
    case fa: (Inr z)
    show ?thesis
    proof (cases "mapE f xs")
      case (Inl e)
      then have "\<And>zs. map f xs \<noteq> map Inr zs" using Cons.IH by simp
      with Inl fa show ?thesis by auto
    next
      case (Inr zs)
      then have "map f xs = map Inr zs" using Cons.IH by simp
      with Inr fa show ?thesis by (cases ys) auto
    qed
  qed
qed

lemma mapE_Inl: "mapE f xs = Inl e \<Longrightarrow> \<exists>x \<in> set xs. f x = Inl e"
  by (induction xs) (auto split: sum.splits)

section \<open>The colour converter\<close>

subsection \<open>Rounding to a double\<close>

lemma roundEven_ge: "of_int m \<le> y \<Longrightarrow> m \<le> roundEven y"
proof -
  assume "of_int m \<le> y"
  then have "m \<le> \<lfloor>y\<rfloor>" by (simp add: le_floor_iff)
  then show ?thesis unfolding roundEven_def Let_def by auto
qed

lemma roundEven_le: "y \<le> of_int m \<Longrightarrow> roundEven y \<le> m"
proof -
  assume a: "y \<le> of_int m"
  have f: "\<lfloor>y\<rfloor> \<le> m" using a by (simp add: floor_le_iff)
  show ?thesis
  proof (cases "y = of_int m")
    case True
    then show ?thesis by (simp add: roundEven_def)
  next
    case False
    with a have "y < of_int m" by simp
    then have "\<lfloor>y\<rfloor> < m" by (simp add: floor_less_iff)
    then have "\<lfloor>y\<rfloor> + 1 \<le> m" by simp
    with f show ?thesis unfolding roundEven_def Let_def by auto
  qed
qed

text \<open>Rounding to a multiple of \<open>1 / 2 ^ k\<close> does not cross an integer.\<close>

lemma scaled_bounds:
  assumes "of_int a \<le> x" "x \<le> of_int b"
  shows "of_int a \<le> of_int (roundEven (x * 2 ^ k)) / (2 ^ k :: rat)"
    and "of_int (roundEven (x * 2 ^ k)) / (2 ^ k :: rat) \<le> of_int b"
proof -
  have p: "(0::rat) < 2 ^ k" by simp
  have "of_int (a * 2 ^ k) \<le> x * 2 ^ k" using assms(1) by simp
  then have "a * 2 ^ k \<le> roundEven (x * 2 ^ k)" by (rule roundEven_ge)
  then have "(of_int (a * 2 ^ k) :: rat) \<le> of_int (roundEven (x * 2 ^ k))" by (simp only: of_int_le_iff)
  then show "of_int a \<le> of_int (roundEven (x * 2 ^ k)) / (2 ^ k :: rat)"
    using p by (simp add: pos_le_divide_eq)
  have "x * 2 ^ k \<le> of_int (b * 2 ^ k)" using assms(2) by simp
  then have "roundEven (x * 2 ^ k) \<le> b * 2 ^ k" by (rule roundEven_le)
  then have "(of_int (roundEven (x * 2 ^ k)) :: rat) \<le> of_int (b * 2 ^ k)" by (simp only: of_int_le_iff)
  then show "of_int (roundEven (x * 2 ^ k)) / (2 ^ k :: rat) \<le> of_int b"
    using p by (simp add: pos_divide_le_eq)
qed

lemma expUp_le: "1 \<le> x \<Longrightarrow> 2 ^ expUp x \<le> x"
proof (induction x rule: expUp.induct)
  case (1 x)
  show ?case
  proof (cases "x < 2")
    case True
    with 1 show ?thesis by (subst expUp.simps) simp
  next
    case False
    then have "1 \<le> x / 2" by simp
    with 1 False have "2 ^ expUp (x / 2) \<le> x / 2" by simp
    with False show ?thesis by (subst expUp.simps) simp
  qed
qed

text \<open>A number between 0 and 255 is rounded to a double between 0 and 255.\<close>

lemma fl_byte_range:
  assumes "0 \<le> x" "x \<le> 255"
  shows "0 \<le> fl x \<and> fl x \<le> 255"
proof (cases "x = 0")
  case True
  then show ?thesis by (simp add: fl_def)
next
  case False
  with assms have pos: "0 < x" by simp
  have a: "of_int 0 \<le> x" "x \<le> of_int 255" using assms by simp_all
  show ?thesis
  proof (cases "1 \<le> x")
    case True
    have "\<not> 52 \<le> expUp x"
    proof
      assume "52 \<le> expUp x"
      then have "(2::rat) ^ 52 \<le> 2 ^ expUp x" by (intro power_increasing) simp_all
      also have "\<dots> \<le> x" using True by (rule expUp_le)
      finally show False using assms(2) by simp
    qed
    then have "fl x = of_int (roundEven (x * 2 ^ (52 - expUp x))) / 2 ^ (52 - expUp x)"
      using pos True by (simp add: fl_def flPos_def Let_def)
    then show ?thesis using scaled_bounds [OF a, of "52 - expUp x"] by simp
  next
    case False
    then have "fl x = of_int (roundEven (x * 2 ^ (52 + min (expDown x) 1022))) / 2 ^ (52 + min (expDown x) 1022)"
      using pos by (simp add: fl_def flPos_def Let_def)
    then show ?thesis using scaled_bounds [OF a, of "52 + min (expDown x) 1022"] by simp
  qed
qed

lemma fmul_channel: "0 \<le> c \<Longrightarrow> c \<le> 1 \<Longrightarrow> 0 \<le> fmul c 255 \<and> fmul c 255 \<le> 255"
  unfolding fmul_def by (rule fl_byte_range) simp_all

lemma floor_divide_rat_numeral:
  "\<lfloor>(numeral v :: rat) / numeral w\<rfloor> = numeral v div numeral w"
  by (metis floor_divide_of_int_eq of_int_numeral)

lemma floor_one_divide_rat_numeral:
  "\<lfloor>1 / (numeral w :: rat)\<rfloor> = 1 div numeral w"
  by (metis floor_divide_of_int_eq of_int_numeral of_int_1)

text \<open>The equations that evaluate the double arithmetic on numerals.\<close>

lemmas double_eval = fmul_def fdiv_def fl_def flPos_def expUp.simps expDown.simps roundEven_def
  Let_def floor_divide_rat_numeral floor_one_divide_rat_numeral

subsection \<open>Shifts, rounding and hexadecimal digits\<close>

lemma shl_small: "0 \<le> x \<Longrightarrow> x * 2 ^ n < 2 ^ 31 \<Longrightarrow> n < 32 \<Longrightarrow> shl x n = x * 2 ^ n"
proof -
  assume a: "0 \<le> x" "x * 2 ^ n < 2 ^ 31" "n < 32"
  have lb: "- (2 ^ 31) \<le> x * 2 ^ n"
  proof -
    have "(0::int) \<le> x * 2 ^ n" using a(1) by simp
    moreover have "- (2 ^ 31) \<le> (0::int)" by simp
    ultimately show ?thesis by (rule order_trans [rotated])
  qed
  have w: "push_bit n (word_of_int x :: 32 word) = word_of_int (x * 2 ^ n)"
    by (simp add: push_bit_eq_mult)
  have "sint (word_of_int (x * 2 ^ n) :: 32 word) = signed_take_bit (LENGTH(32) - 1) (x * 2 ^ n)"
    by (rule sint_sbintrunc')
  also have "\<dots> = signed_take_bit 31 (x * 2 ^ n)" by simp
  also have "\<dots> = x * 2 ^ n" using lb a(2) by (rule signed_take_bit_int_eq_self)
  finally have s: "sint (word_of_int (x * 2 ^ n) :: 32 word) = x * 2 ^ n" .
  have "n mod 32 = n" using a(3) by simp
  then show ?thesis unfolding shl_def by (simp only: w s)
qed

lemma shl_1_24: "shl 1 24 = 16777216"
  by (simp add: shl_def)

lemma shl_16: "0 \<le> x \<Longrightarrow> x \<le> 255 \<Longrightarrow> shl x 16 = x * 65536"
  using shl_small [of x 16] by simp

lemma shl_8: "0 \<le> x \<Longrightarrow> x \<le> 255 \<Longrightarrow> shl x 8 = x * 256"
  using shl_small [of x 8] by simp

lemma Math_round_byte: "0 \<le> y \<Longrightarrow> y \<le> 255 \<Longrightarrow> 0 \<le> Math_round y \<and> Math_round y \<le> 255"
  unfolding Math_round_def by (simp add: floor_le_iff le_floor_iff)

lemma Math_round_channel:
  "0 \<le> c \<Longrightarrow> c \<le> 1 \<Longrightarrow> 0 \<le> Math_round (fmul c 255) \<and> Math_round (fmul c 255) \<le> 255"
  using fmul_channel [of c] Math_round_byte [of "fmul c 255"] by simp

lemma hexDigits_small: "n < 16 \<Longrightarrow> hexDigits n = [hexDigit n]"
  by (subst hexDigits.simps) simp

lemma hexDigits_snoc: "0 < q \<Longrightarrow> d < 16 \<Longrightarrow> hexDigits (16 * q + d) = hexDigits q @ [hexDigit d]"
  by (subst hexDigits.simps) simp

lemma hex7:
  assumes "r1 < 16" "r0 < 16" "g1 < 16" "g0 < 16" "b1 < 16" "b0 < 16"
  shows "hexDigits (16 * (16 * (16 * (16 * (16 * (16 * 1 + r1) + r0) + g1) + g0) + b1) + b0)
         = [hexDigit 1, hexDigit r1, hexDigit r0, hexDigit g1, hexDigit g0, hexDigit b1, hexDigit b0]"
  using assms by (simp only: hexDigits_snoc hexDigits_small add_pos_nonneg zero_less_one append.simps mult_pos_pos) 

lemma rgb_nested:
  fixes r1 r0 g1 g0 b1 b0 :: nat
  shows "16777216 + (16 * r1 + r0) * 65536 + (16 * g1 + g0) * 256 + (16 * b1 + b0) =
     16 * (16 * (16 * (16 * (16 * (16 * 1 + r1) + r0) + g1) + g0) + b1) + b0"
  by simp

lemma hexDigits_rgb:
  fixes R G B :: nat
  assumes "R < 256" "G < 256" "B < 256"
  shows "hexDigits (16777216 + R * 65536 + G * 256 + B) =
     [hexDigit 1, hexDigit (R div 16), hexDigit (R mod 16), hexDigit (G div 16), hexDigit (G mod 16),
      hexDigit (B div 16), hexDigit (B mod 16)]"
proof -
  have d: "R div 16 < 16" "G div 16 < 16" "B div 16 < 16" using assms by simp_all
  have m: "R mod 16 < 16" "G mod 16 < 16" "B mod 16 < 16" by simp_all
  have "16777216 + R * 65536 + G * 256 + B =
      16777216 + (16 * (R div 16) + R mod 16) * 65536 + (16 * (G div 16) + G mod 16) * 256
        + (16 * (B div 16) + B mod 16)"
    by (simp only: mult_div_mod_eq)
  also have "\<dots> = 16 * (16 * (16 * (16 * (16 * (16 * 1 + R div 16) + R mod 16) + G div 16) + G mod 16)
        + B div 16) + B mod 16"
    by (rule rgb_nested)
  finally show ?thesis
    by (simp only: hex7 [OF d(1) m(1) d(2) m(2) d(3) m(3)])
qed


lemma upt_16: "[0..<16] = [0, 1, 2, 3, 4, 5, 6, 7, 8, 9, 10, 11, 12, 13, 14, 15::nat]"
  by (simp add: upt_conv_Cons)

lemma upper_hexDigit_table:
  "map (\<lambda>d. upperChar (hexDigit d)) [0..<16] = ''0123456789ABCDEF''"
  unfolding upt_16 by (simp add: upperChar_def hexDigit_def)

lemma upper_hexDigit:
  assumes "d < 16"
  shows "upperChar (hexDigit d) = ''0123456789ABCDEF'' ! d"
proof -
  have "upperChar (hexDigit d) = map (\<lambda>d. upperChar (hexDigit d)) [0..<16] ! d"
    using assms by (simp del: upt_rec_numeral)
  then show ?thesis by (simp only: upper_hexDigit_table)
qed

lemma Math_round_half_up: "Math_round x = roundHalfUp x"
proof -
  have fx: "frac x = x - of_int \<lfloor>x\<rfloor>" by (simp add: frac_def)
  have lo: "of_int \<lfloor>x\<rfloor> \<le> x" and hi: "x < of_int \<lfloor>x\<rfloor> + 1" by linarith+
  show ?thesis
  proof (cases "frac x < 1 / 2")
    case True
    have "of_int \<lfloor>x\<rfloor> \<le> x + 1 / 2" using lo by linarith
    moreover have "x + 1 / 2 < of_int \<lfloor>x\<rfloor> + 1" using True fx by linarith
    ultimately have "\<lfloor>x + 1 / 2\<rfloor> = \<lfloor>x\<rfloor>" by (rule floor_unique)
    then show ?thesis using True by (simp add: Math_round_def roundHalfUp_def)
  next
    case False
    have "of_int (\<lfloor>x\<rfloor> + 1) \<le> x + 1 / 2" using False fx by simp
    moreover have "x + 1 / 2 < of_int (\<lfloor>x\<rfloor> + 1) + 1" using hi by simp
    ultimately have "\<lfloor>x + 1 / 2\<rfloor> = \<lfloor>x\<rfloor> + 1" by (rule floor_unique)
    then show ?thesis using False by (simp add: Math_round_def roundHalfUp_def)
  qed
qed

lemma toString16_rgb:
  assumes "0 \<le> R" "R \<le> 255" "0 \<le> G" "G \<le> 255" "0 \<le> B" "B \<le> 255"
  shows "toUpperCase (slice 1 (toString16 (shl 1 24 + shl R 16 + shl G 8 + B)))
         = hexByte R @ hexByte G @ hexByte B"
proof -
  let ?r = "nat R" and ?g = "nat G" and ?b = "nat B"
  have b: "?r < 256" "?g < 256" "?b < 256" using assms by simp_all
  have "shl 1 24 + shl R 16 + shl G 8 + B = 16777216 + R * 65536 + G * 256 + B"
    using assms by (simp add: shl_1_24 shl_16 shl_8)
  also have "\<dots> = int (16777216 + ?r * 65536 + ?g * 256 + ?b)"
    using assms by simp
  finally have "toString16 (shl 1 24 + shl R 16 + shl G 8 + B)
      = hexDigits (16777216 + ?r * 65536 + ?g * 256 + ?b)"
    by (simp only: toString16_def nat_int) simp
  also have "\<dots> = [hexDigit 1, hexDigit (?r div 16), hexDigit (?r mod 16), hexDigit (?g div 16),
      hexDigit (?g mod 16), hexDigit (?b div 16), hexDigit (?b mod 16)]"
    using b by (rule hexDigits_rgb)
  finally have "toUpperCase (slice 1 (toString16 (shl 1 24 + shl R 16 + shl G 8 + B)))
      = [upperChar (hexDigit (?r div 16)), upperChar (hexDigit (?r mod 16)),
         upperChar (hexDigit (?g div 16)), upperChar (hexDigit (?g mod 16)),
         upperChar (hexDigit (?b div 16)), upperChar (hexDigit (?b mod 16))]"
    by (simp add: toUpperCase_def slice_def)
  moreover have "?r div 16 < 16" "?g div 16 < 16" "?b div 16 < 16" using b by simp_all
  moreover have "?r mod 16 < 16" "?g mod 16 < 16" "?b mod 16 < 16" by simp_all
  moreover have "nat (R div 16) = ?r div 16" "nat (G div 16) = ?g div 16" "nat (B div 16) = ?b div 16"
    using assms by (simp_all add: nat_div_distrib)
  moreover have "nat (R mod 16) = ?r mod 16" "nat (G mod 16) = ?g mod 16" "nat (B mod 16) = ?b mod 16"
    using assms by (simp_all add: nat_mod_distrib)
  ultimately show ?thesis
    by (simp add: hexByte_def upper_hexDigit)
qed

lemma convertColor_default: "convertColor c None = convertColor c (Some 1)"
  by (cases c) (simp_all add: convertColor_def)

lemma convertColor_Inl: "convertColor c opacity = Inl e \<Longrightarrow> e = TypeError \<and> c = None"
  by (cases c) (simp_all add: convertColor_def Let_def)

lemma convertColor_Some: "\<exists>cv. convertColor (Some c) opacity = Inr cv"
  by (simp add: convertColor_def Let_def)

subsection \<open>The result of \<open>convertColor\<close>\<close>

text \<open>
  Claim C2. For a colour whose channels lie between 0 and 1 and any external opacity,
  \<open>convertColor\<close> returns as \<open>hex\<close> the character \<open>#\<close> followed by the red, green and
  blue channels, each multiplied by 255, rounded half up and written as two upper-case
  hexadecimal digits with a leading zero; it returns as \<open>opacity\<close> the product of the
  external opacity and the alpha channel rounded half up to two decimal places. The
  products and the quotient are those of the program, on doubles. Without the external
  opacity the result is that for the external opacity 1, and this is what a solid
  paint without an opacity field gets.
\<close>

theorem convertColor_spec:
  assumes "0 \<le> rgba_r c" "rgba_r c \<le> 1" "0 \<le> rgba_g c" "rgba_g c \<le> 1"
      and "0 \<le> rgba_b c" "rgba_b c \<le> 1" "0 \<le> rgba_a c" "rgba_a c \<le> 1"
  shows "convertColor (Some c) (Some ext) =
           Inr \<lparr>cv_hex = hexColor c, cv_opacity = roundTo2 (fmul ext (rgba_a c))\<rparr>
         \<and> convertColor (Some c) None = convertColor (Some c) (Some 1)
         \<and> parsePaint (solidPaint c) =
             Inr ((emptyFill ''SOLID'') \<lparr>f_hex := Some (hexColor c),
                                         f_opacity := Some (roundTo2 (fmul 1 (rgba_a c)))\<rparr>)"
proof -
  have r: "0 \<le> Math_round (fmul (rgba_r c) 255) \<and> Math_round (fmul (rgba_r c) 255) \<le> 255"
    using assms(1,2) by (rule Math_round_channel)
  have g: "0 \<le> Math_round (fmul (rgba_g c) 255) \<and> Math_round (fmul (rgba_g c) 255) \<le> 255"
    using assms(3,4) by (rule Math_round_channel)
  have b: "0 \<le> Math_round (fmul (rgba_b c) 255) \<and> Math_round (fmul (rgba_b c) 255) \<le> 255"
    using assms(5,6) by (rule Math_round_channel)
  have hex: "toUpperCase (slice 1 (toString16 (shl 1 24 + shl (Math_round (fmul (rgba_r c) 255)) 16
                + shl (Math_round (fmul (rgba_g c) 255)) 8 + Math_round (fmul (rgba_b c) 255))))
             = hexByte (Math_round (fmul (rgba_r c) 255)) @ hexByte (Math_round (fmul (rgba_g c) 255))
                 @ hexByte (Math_round (fmul (rgba_b c) 255))"
    using r g b by (intro toString16_rgb) simp_all
  have conv: "convertColor (Some c) (Some e) =
           Inr \<lparr>cv_hex = hexColor c, cv_opacity = roundTo2 (fmul e (rgba_a c))\<rparr>" for e
    unfolding convertColor_def option.case Let_def hex
    by (simp add: hexColor_def roundTo2_def Math_round_half_up)
  have "parsePaint (solidPaint c) =
      Inr ((emptyFill ''SOLID'') \<lparr>f_hex := Some (hexColor c),
                                  f_opacity := Some (roundTo2 (fmul 1 (rgba_a c)))\<rparr>)"
    by (simp add: parsePaint_def solidPaint_def blankPaint_def convertColor_default conv [of 1])
  then show ?thesis
    by (simp add: conv [of ext] convertColor_default)
qed

text \<open>
  The witness has the double of \<open>0.3\<close> as red channel: its product with 255 is the
  double \<open>76.5\<close>, which rounds to 77, where the exact product lies below \<open>76.5\<close>. The
  opacities are the doubles of \<open>0.02\<close> and of \<open>0.24\<close>.
\<close>

theorem convertColor_spec_witness:
  "convertColor (Some (rgba d_0_3 0 1 d_0_015)) None
     = Inr \<lparr>cv_hex = ''#4D00FF'', cv_opacity = 5764607523034235 / 2 ^ 58\<rparr>
   \<and> convertColor (Some (rgba d_0_3 0 1 d_0_35)) (Some d_0_7)
     = Inr \<lparr>cv_hex = ''#4D00FF'', cv_opacity = 1080863910568919 / 2 ^ 52\<rparr>"
proof -
  have m: "fmul d_0_3 255 = 153 / 2" "fmul 0 255 = 0" "fmul 1 255 = 255"
    by (simp_all add: d_0_3_def double_eval)
  have r: "roundHalfUp (153 / 2) = 77" "roundHalfUp 0 = 0" "roundHalfUp 255 = 255"
    by (simp_all add: roundHalfUp_def frac_def floor_divide_rat_numeral)
  have h: "hexByte 77 = ''4D''" "hexByte 0 = ''00''" "hexByte 255 = ''FF''"
    by (simp_all add: hexByte_def)
  have x: "hexColor (rgba d_0_3 0 1 a) = ''#4D00FF''" for a
    by (simp add: hexColor_def rgba_def m r h)
  have o1: "roundTo2 (fmul 1 d_0_015) = 5764607523034235 / 2 ^ 58"
    by (simp add: roundTo2_def d_0_015_def double_eval roundHalfUp_def frac_def)
  have o2: "roundTo2 (fmul d_0_7 d_0_35) = 1080863910568919 / 2 ^ 52"
    by (simp add: roundTo2_def d_0_7_def d_0_35_def double_eval roundHalfUp_def frac_def)
  have "convertColor (Some (rgba d_0_3 0 1 d_0_015)) None
     = Inr \<lparr>cv_hex = ''#4D00FF'', cv_opacity = 5764607523034235 / 2 ^ 58\<rparr>"
    using convertColor_spec [of "rgba d_0_3 0 1 d_0_015" 1] x [of d_0_015] o1
    by (simp add: rgba_def d_0_3_def d_0_015_def)
  moreover have "convertColor (Some (rgba d_0_3 0 1 d_0_35)) (Some d_0_7)
     = Inr \<lparr>cv_hex = ''#4D00FF'', cv_opacity = 1080863910568919 / 2 ^ 52\<rparr>"
    using convertColor_spec [of "rgba d_0_3 0 1 d_0_35" d_0_7] x [of d_0_35] o2
    by (simp add: rgba_def d_0_3_def d_0_35_def)
  ultimately show ?thesis by (rule conjI)
qed

lemma convertColor_red:
  "convertColor (Some (rgba 1 0 0 1)) None = Inr \<lparr>cv_hex = ''#FF0000'', cv_opacity = 1\<rparr>"
proof -
  have f: "fmul 1 255 = 255" "fmul 0 255 = 0" "fmul (fmul 1 1) 100 = 100" "fdiv 100 100 = 1"
    by (simp_all add: double_eval)
  have m: "Math_round 255 = 255" "Math_round 0 = 0" "Math_round 100 = 100"
    by (simp_all add: Math_round_def floor_divide_rat_numeral floor_one_divide_rat_numeral)
  have "toUpperCase (slice 1 (toString16 (shl 1 24 + shl 255 16 + shl 0 8 + 0))) = hexByte 255 @ hexByte 0 @ hexByte 0"
    by (rule toString16_rgb) simp_all
  then show ?thesis
    by (simp add: convertColor_def rgba_def f m hexByte_def del: One_nat_def)
qed

section \<open>The paint normalizer\<close>

lemma parsePaint_red:
  "parsePaint (solidPaint (rgba 1 0 0 1))
     = Inr ((emptyFill ''SOLID'') \<lparr>f_hex := Some ''#FF0000'', f_opacity := Some 1\<rparr>)"
  by (simp add: parsePaint_def solidPaint_def blankPaint_def convertColor_red)

lemma parsePaint_examples:
  "parsePaint (blankPaint ''SOLID'') = Inl TypeError"
  "parsePaint (blankPaint ''EMOJI'') = Inl (UnknownPaintType ''EMOJI'')"
  "parsePaint (blankPaint ''GRADIENT_LINEAR'') = Inl TypeError"
  by (simp_all add: parsePaint_def blankPaint_def gradientTypes_def convertColor_def)

lemma parseGradientStop_Inl:
  "parseGradientStop s = Inl e \<Longrightarrow> e = TypeError \<and> stop_color s = None"
  by (auto simp: parseGradientStop_def split: sum.splits dest: convertColor_Inl)

lemma mapE_parseGradientStop:
  assumes "\<forall>s \<in> set src. stop_color s \<noteq> None"
  shows "\<exists>stops. mapE parseGradientStop src = Inr stops \<and> length stops = length src
           \<and> map gs_position stops = map stop_position src
           \<and> map (\<lambda>g. Inr (gs_color g)) stops = map (\<lambda>s. convertColor (stop_color s) None) src"
  using assms
proof (induction src)
  case Nil
  show ?case by simp
next
  case (Cons a src)
  then obtain c where c: "stop_color a = Some c" by auto
  obtain cv where cv: "convertColor (Some c) None = Inr cv"
    using convertColor_Some by blast
  from Cons obtain stops where s: "mapE parseGradientStop src = Inr stops" "length stops = length src"
    "map gs_position stops = map stop_position src"
    "map (\<lambda>g. Inr (gs_color g)) stops = map (\<lambda>s. convertColor (stop_color s) None) src"
    by auto
  have "mapE parseGradientStop (a # src) = Inr (\<lparr>gs_position = stop_position a, gs_color = cv\<rparr> # stops)"
    by (simp add: parseGradientStop_def c cv s(1))
  then show ?case using c cv s by simp
qed

text \<open>
  An exception of \<open>parsePaint\<close> is either the \<open>TypeError\<close> of a paint that lacks a field
  of its kind, or the unknown-paint-type error of a tag that is not recognized.
\<close>

lemma parsePaint_Inl_cases:
  assumes "parsePaint p = Inl e"
  shows "(e = TypeError \<and> \<not> hasRequiredFields p)
       \<or> (e = UnknownPaintType (p_type p) \<and> p_type p \<notin> set recognizedPaintTypes)"
proof (cases "p_type p = ''IMAGE''")
  case True
  with assms show ?thesis by (simp add: parsePaint_def)
next
  case image: False
  show ?thesis
  proof (cases "p_type p = ''SOLID''")
    case True
    with assms image have "convertColor (p_color p) (p_opacity p) = Inl e"
      by (simp add: parsePaint_def split: sum.splits)
    then have "e = TypeError \<and> p_color p = None" by (rule convertColor_Inl)
    with True show ?thesis by (simp add: hasRequiredFields_def)
  next
    case solid: False
    show ?thesis
    proof (cases "List.member gradientTypes (p_type p)")
      case grad: True
      show ?thesis
      proof (cases "p_gradientStops p")
        case None
        with assms image solid grad show ?thesis
          by (simp add: parsePaint_def hasRequiredFields_def)
      next
        case (Some stops)
        with assms image solid grad have "mapE parseGradientStop stops = Inl e"
          by (simp add: parsePaint_def split: sum.splits)
        then obtain s where s: "s \<in> set stops" "parseGradientStop s = Inl e"
          by (blast dest: mapE_Inl)
        from s(2) have "e = TypeError" "stop_color s = None"
          by (simp_all add: parseGradientStop_Inl)
        with s(1) have "e = TypeError" "\<not> list_all (\<lambda>s. stop_color s \<noteq> None) stops"
          by (auto simp: list_all_iff)
        with Some solid grad show ?thesis by (simp add: hasRequiredFields_def)
      qed
    next
      case False
      with image solid have "p_type p \<notin> set recognizedPaintTypes"
        by (simp add: recognizedPaintTypes_def gradientTypes_def)
      moreover from assms image solid False have "e = UnknownPaintType (p_type p)"
        by (simp add: parsePaint_def)
      ultimately show ?thesis by simp
    qed
  qed
qed

lemma parsePaint_unknown_Inl:
  "p_type p \<notin> set recognizedPaintTypes \<Longrightarrow> parsePaint p = Inl (UnknownPaintType (p_type p))"
  by (auto simp: parsePaint_def recognizedPaintTypes_def gradientTypes_def)

text \<open>
  Claim C1. On a paint whose tag is none of the recognized ones \<open>parsePaint\<close> throws the
  unknown-paint-type error, carrying the tag, and returns no fill; on a paint with a
  recognized tag it never throws that error.
\<close>

theorem parsePaint_unknown_iff:
  "((\<exists>t. parsePaint raw = Inl (UnknownPaintType t)) \<longleftrightarrow> p_type raw \<notin> set recognizedPaintTypes)
   \<and> (p_type raw \<notin> set recognizedPaintTypes \<longrightarrow>
        parsePaint raw = Inl (UnknownPaintType (p_type raw)) \<and> (\<forall>f. parsePaint raw \<noteq> Inr f))"
proof -
  have "p_type raw \<notin> set recognizedPaintTypes" if "parsePaint raw = Inl (UnknownPaintType t)" for t
    using parsePaint_Inl_cases [OF that] by simp
  moreover have "parsePaint raw = Inl (UnknownPaintType (p_type raw))"
    if "p_type raw \<notin> set recognizedPaintTypes"
    using that by (rule parsePaint_unknown_Inl)
  ultimately show ?thesis by auto
qed

theorem parsePaint_unknown_iff_witness:
  "parsePaint (blankPaint ''EMOJI'') = Inl (UnknownPaintType ''EMOJI'')
   \<and> \<not> (\<exists>t. parsePaint (solidPaint (rgba 1 0 0 1)) = Inl (UnknownPaintType t))"
  using parsePaint_unknown_iff [of "blankPaint ''EMOJI''"]
        parsePaint_unknown_iff [of "solidPaint (rgba 1 0 0 1)"]
  by (simp add: blankPaint_def solidPaint_def recognizedPaintTypes_def)

text \<open>
  Claim C6, as stated, fails: a paint with a gradient tag and no stop list makes
  \<open>raw.gradientStops.map\<close> throw a \<open>TypeError\<close>, and no fill is returned.
\<close>

theorem gradient_without_stops_counterexample:
  "p_type (blankPaint ''GRADIENT_LINEAR'') \<in> set gradientTypes
   \<and> parsePaint (blankPaint ''GRADIENT_LINEAR'') = Inl TypeError"
  by (simp add: parsePaint_examples) (simp add: blankPaint_def gradientTypes_def)

text \<open>
  Claim C6, amended. On a paint with one of the four gradient tags that carries its
  stop list, with a colour on every stop, \<open>parsePaint\<close> returns a fill with the same
  tag and the same gradient handle positions, and with as many stops as the paint
  has, in the same order, each keeping its position and having as colour what
  \<open>convertColor\<close> returns for the colour of the source stop with the opacity argument
  at its default 1.
\<close>

theorem parsePaint_gradient:
  assumes "p_type raw \<in> set gradientTypes"
      and "p_gradientStops raw = Some src"
      and "\<forall>s \<in> set src. stop_color s \<noteq> None"
  shows "\<exists>f stops. parsePaint raw = Inr f \<and> f_type f = p_type raw
           \<and> f_gradientHandlePositions f = p_gradientHandlePositions raw
           \<and> f_gradientStops f = Some stops
           \<and> length stops = length src
           \<and> map gs_position stops = map stop_position src
           \<and> map (\<lambda>g. Inr (gs_color g)) stops = map (\<lambda>s. convertColor (stop_color s) (Some 1)) src"
proof -
  from assms(1) have t: "p_type raw \<noteq> ''IMAGE''" "p_type raw \<noteq> ''SOLID''"
    by (auto simp: gradientTypes_def)
  from mapE_parseGradientStop [OF assms(3)] obtain stops where
    s: "mapE parseGradientStop src = Inr stops" "length stops = length src"
      "map gs_position stops = map stop_position src"
      "map (\<lambda>g. Inr (gs_color g)) stops = map (\<lambda>s. convertColor (stop_color s) None) src"
    by blast
  have "parsePaint raw = Inr ((emptyFill (p_type raw))
          \<lparr>f_gradientHandlePositions := p_gradientHandlePositions raw, f_gradientStops := Some stops\<rparr>)"
    using assms(1,2) t s(1) by (simp add: parsePaint_def)
  with s(2,3,4) show ?thesis by (simp add: emptyFill_def convertColor_default)
qed

theorem parsePaint_gradient_witness:
  "p_type gradientExample \<in> set gradientTypes
   \<and> (\<exists>f stops. parsePaint gradientExample = Inr f \<and> f_gradientStops f = Some stops
         \<and> map gs_position stops = [0, 1 / 2, 1])"
proof -
  let ?src = "[\<lparr>stop_position = 0, stop_color = Some (rgba 1 0 0 1)\<rparr>,
               \<lparr>stop_position = 1 / 2, stop_color = Some (rgba 0 1 0 1)\<rparr>,
               \<lparr>stop_position = 1, stop_color = Some (rgba 0 0 1 (1 / 2))\<rparr>]"
  have t: "p_type gradientExample \<in> set gradientTypes"
    by (simp add: gradientExample_def blankPaint_def gradientTypes_def)
  have g: "p_gradientStops gradientExample = Some ?src"
    by (simp add: gradientExample_def blankPaint_def)
  have c: "\<forall>s \<in> set ?src. stop_color s \<noteq> None" by simp
  from parsePaint_gradient [OF t g c] t show ?thesis by auto
qed

text \<open>
  Claim C10. A solid paint is converted exactly when it carries a colour: without one
  the conversion reads a property of a missing value (a \<open>TypeError\<close>, not the
  unknown-paint-type error), so \<open>parsePaint\<close> returns on every solid paint only under
  the precondition that the colour is there.
\<close>

theorem parsePaint_solid_needs_color:
  "p_type raw = ''SOLID'' \<Longrightarrow>
     ((\<exists>f. parsePaint raw = Inr f) \<longleftrightarrow> p_color raw \<noteq> None)
     \<and> (p_color raw = None \<longrightarrow> parsePaint raw = Inl TypeError)"
  by (cases "p_color raw") (auto simp: parsePaint_def convertColor_def Let_def)

theorem parsePaint_solid_needs_color_witness:
  "p_type (blankPaint ''SOLID'') = ''SOLID'' \<and> p_color (blankPaint ''SOLID'') = None
   \<and> parsePaint (blankPaint ''SOLID'') = Inl TypeError
   \<and> \<not> (\<exists>f. parsePaint (blankPaint ''SOLID'') = Inr f)"
  using parsePaint_solid_needs_color [of "blankPaint ''SOLID''"]
  by (simp add: blankPaint_def)

section \<open>The node transformer\<close>

subsection \<open>Unfolding \<open>parseNode\<close>\<close>

lemma parsePaints_Inr:
  "parsePaints v = Inr r \<longleftrightarrow>
     (case v of Some (Typed ps) \<Rightarrow> \<exists>fs. r = Some fs \<and> map parsePaint ps = map Inr fs | _ \<Rightarrow> r = None)"
proof (cases v)
  case None
  then show ?thesis by (auto simp: parsePaints_def hasValue_def)
next
  case (Some d)
  show ?thesis
  proof (cases d)
    case (Typed ps)
    show ?thesis
      by (cases "mapE parsePaint ps")
         (use Some Typed in \<open>auto simp: parsePaints_def hasValue_def anyValue_def mapE_Inr_iff [symmetric]\<close>)
  next
    case Other
    with Some show ?thesis by (auto simp: parsePaints_def hasValue_def anyValue_def)
  qed
qed

lemma typedValue_eq: "typedValue v = Some x \<longleftrightarrow> v = Some (Typed x)"
  by (auto simp: typedValue_def hasValue_def anyValue_def split: option.splits dyn.splits)

lemma typedValue_None: "typedValue v = None \<longleftrightarrow> (\<forall>x. v \<noteq> Some (Typed x))"
  by (auto simp: typedValue_def hasValue_def anyValue_def split: option.splits dyn.splits)

lemma parseNode_unfold:
  "parseNode L n parent =
     (case parsePaints (n_fills n) of
        Inl e \<Rightarrow> Inl e
      | Inr fills \<Rightarrow>
     (case parsePaints (n_strokes n) of
        Inl e \<Rightarrow> Inl e
      | Inr strokes \<Rightarrow>
     (case parseChildren L n of
        Inl e \<Rightarrow> Inl e
      | Inr children \<Rightarrow>
          Inr (SimplifiedNode (n_id n) (n_name n) (n_type n) None
            (hasValue isTruthy (n_characters n))
            (map_option parseTextStyle (hasValue anyValue (n_style n)))
            fills strokes
            (typedValue (n_opacity n))
            (map_option (\<lambda>x. NumStr x ''px'') (typedValue (n_cornerRadius n)))
            (Some (L n parent))
            (case typedValue (n_strokeWeight n) of
               None \<Rightarrow> None
             | Some w \<Rightarrow> if optLength strokes > 0 then Some w else None)
            (typedValue (n_strokeDashes n))
            (map_option parseStrokeWeights (hasValue isStrokeWeights (n_individualStrokeWeights n)))
            children))))"
  unfolding parseChildren_def by (rule parseNode.simps)

lemma parseNode_InrE:
  assumes "parseNode L n parent = Inr s"
  obtains fills strokes children where
    "parsePaints (n_fills n) = Inr fills" "parsePaints (n_strokes n) = Inr strokes"
    "parseChildren L n = Inr children"
    "s = SimplifiedNode (n_id n) (n_name n) (n_type n) None
            (hasValue isTruthy (n_characters n))
            (map_option parseTextStyle (hasValue anyValue (n_style n)))
            fills strokes
            (typedValue (n_opacity n))
            (map_option (\<lambda>x. NumStr x ''px'') (typedValue (n_cornerRadius n)))
            (Some (L n parent))
            (case typedValue (n_strokeWeight n) of
               None \<Rightarrow> None
             | Some w \<Rightarrow> if optLength strokes > 0 then Some w else None)
            (typedValue (n_strokeDashes n))
            (map_option parseStrokeWeights (hasValue isStrokeWeights (n_individualStrokeWeights n)))
            children"
proof (cases "parsePaints (n_fills n)")
  case (Inl e)
  with assms show ?thesis by (simp add: parseNode_unfold)
next
  case fills: (Inr fills)
  show ?thesis
  proof (cases "parsePaints (n_strokes n)")
    case (Inl e)
    with assms fills show ?thesis by (simp add: parseNode_unfold)
  next
    case strokes: (Inr strokes)
    show ?thesis
    proof (cases "parseChildren L n")
      case (Inl e)
      with assms fills strokes show ?thesis by (simp add: parseNode_unfold)
    next
      case (Inr children)
      with assms fills strokes that show ?thesis by (simp add: parseNode_unfold)
    qed
  qed
qed

lemma parseNode_Inr:
  assumes "parseNode L n parent = Inr s"
  shows "parsePaints (n_fills n) = Inr (s_fills s)"
    and "parsePaints (n_strokes n) = Inr (s_strokes s)"
    and "parseChildren L n = Inr (s_children s)"
    and "s_id s = n_id n" and "s_name s = n_name n" and "s_type s = n_type n"
    and "s_boundingBox s = None"
    and "s_text s = hasValue isTruthy (n_characters n)"
    and "s_textStyle s = map_option parseTextStyle (hasValue anyValue (n_style n))"
    and "s_opacity s = typedValue (n_opacity n)"
    and "s_borderRadius s = map_option (\<lambda>x. NumStr x ''px'') (typedValue (n_cornerRadius n))"
    and "s_layout s = Some (L n parent)"
    and "s_strokeWeight s =
           (case typedValue (n_strokeWeight n) of
              None \<Rightarrow> None
            | Some w \<Rightarrow> if optLength (s_strokes s) > 0 then Some w else None)"
    and "s_strokeDashes s = typedValue (n_strokeDashes n)"
    and "s_individualStrokeWeights s =
           map_option parseStrokeWeights (hasValue isStrokeWeights (n_individualStrokeWeights n))"
  using assms by (auto elim!: parseNode_InrE split: option.splits)


lemma parseChildren_leaf:
  "n_children n = None \<or> n_children n = Some [] \<Longrightarrow> parseChildren L n = Inr None"
  by (auto simp: parseChildren_def hasValue_def anyValue_def)

lemma parseNode_leaf:
  assumes "n_children n = None \<or> n_children n = Some []"
  shows "parseNode L n parent =
     (case parsePaints (n_fills n) of
        Inl e \<Rightarrow> Inl e
      | Inr fills \<Rightarrow>
     (case parsePaints (n_strokes n) of
        Inl e \<Rightarrow> Inl e
      | Inr strokes \<Rightarrow>
          Inr (SimplifiedNode (n_id n) (n_name n) (n_type n) None
            (hasValue isTruthy (n_characters n))
            (map_option parseTextStyle (hasValue anyValue (n_style n)))
            fills strokes
            (typedValue (n_opacity n))
            (map_option (\<lambda>x. NumStr x ''px'') (typedValue (n_cornerRadius n)))
            (Some (L n parent))
            (case typedValue (n_strokeWeight n) of
               None \<Rightarrow> None
             | Some w \<Rightarrow> if optLength strokes > 0 then Some w else None)
            (typedValue (n_strokeDashes n))
            (map_option parseStrokeWeights (hasValue isStrokeWeights (n_individualStrokeWeights n)))
            None)))"
  by (simp add: parseNode_unfold parseChildren_leaf [OF assms] split: sum.splits)

lemmas eval_defs = mkNode_def noLayout_def parsePaints_def hasValue_def anyValue_def typedValue_def
  optLength_def isTruthy_def blankPaint_def solidPaint_def

lemma parseChildren_Inr:
  "parseChildren L n = Inr r \<Longrightarrow> r \<noteq> None \<longleftrightarrow> (\<exists>c cs. n_children n = Some (c # cs))"
  by (auto simp: parseChildren_def hasValue_def anyValue_def neq_Nil_conv
           split: option.splits if_splits sum.splits)

lemma parsePaints_Inl:
  "parsePaints v = Inl e \<Longrightarrow> \<exists>p \<in> set (typedList v). parsePaint p = Inl e"
  by (auto simp: parsePaints_def hasValue_def anyValue_def typedList_def
           split: option.splits dyn.splits sum.splits dest: mapE_Inl)

lemma parsePaints_Inr_all:
  assumes "parsePaints v = Inr r" "p \<in> set (typedList v)"
  shows "\<exists>f. parsePaint p = Inr f"
proof -
  from assms(2) obtain ps where v: "v = Some (Typed ps)" and p: "p \<in> set ps"
    by (auto simp: typedList_def split: option.splits dyn.splits)
  with assms(1) obtain fs where "map parsePaint ps = map Inr fs"
    by (auto simp: parsePaints_Inr)
  then have "parsePaint p \<in> set (map Inr fs)" using p by (metis image_eqI set_map)
  then show ?thesis by auto
qed

lemma parseChildren_Inl:
  "parseChildren L n = Inl e \<Longrightarrow>
     \<exists>cs. n_children n = Some cs \<and> (\<exists>c \<in> set cs. parseNode L c (Some n) = Inl e)"
  by (auto simp: parseChildren_def hasValue_def anyValue_def
           split: option.splits if_splits sum.splits dest: mapE_Inl)

lemma parseChildren_Inr_all:
  assumes "parseChildren L n = Inr r" "n_children n = Some cs" "c \<in> set cs"
  shows "\<exists>s. parseNode L c (Some n) = Inr s"
proof -
  from assms have "cs \<noteq> []" by auto
  with assms(1,2) obtain ss where "mapE (\<lambda>child. parseNode L child (Some n)) cs = Inr ss"
    by (auto simp: parseChildren_def hasValue_def anyValue_def split: sum.splits)
  then have "map (\<lambda>child. parseNode L child (Some n)) cs = map Inr ss"
    by (simp add: mapE_Inr_iff)
  then have "parseNode L c (Some n) \<in> set (map Inr ss)"
    using assms(3) by (metis image_eqI set_map)
  then show ?thesis by auto
qed

lemma parseNode_InlD:
  assumes "parseNode L n parent = Inl e"
  shows "parsePaints (n_fills n) = Inl e \<or> parsePaints (n_strokes n) = Inl e \<or> parseChildren L n = Inl e"
  using assms by (simp add: parseNode_unfold split: sum.splits)

lemma allPaints_set:
  "set (allPaints n) =
     set (typedList (n_fills n)) \<union> set (typedList (n_strokes n))
       \<union> (case n_children n of None \<Rightarrow> {} | Some cs \<Rightarrow> (\<Union>c \<in> set cs. set (allPaints c)))"
proof (cases "n_children n")
  case None
  then show ?thesis by (subst allPaints.simps) simp
next
  case (Some cs)
  then show ?thesis by (subst allPaints.simps) (simp add: Un_assoc)
qed

lemma allPaints_child:
  "n_children n = Some cs \<Longrightarrow> c \<in> set cs \<Longrightarrow> set (allPaints c) \<subseteq> set (allPaints n)"
  unfolding allPaints_set [of n] by auto

lemma allPaints_own:
  "set (typedList (n_fills n)) \<subseteq> set (allPaints n)" "set (typedList (n_strokes n)) \<subseteq> set (allPaints n)"
  unfolding allPaints_set [of n] by auto

lemma allPaints_cases:
  assumes "p \<in> set (allPaints n)"
  shows "p \<in> set (typedList (n_fills n)) \<or> p \<in> set (typedList (n_strokes n))
       \<or> (\<exists>cs c. n_children n = Some cs \<and> c \<in> set cs \<and> p \<in> set (allPaints c))"
  using assms unfolding allPaints_set [of n] by (cases "n_children n") auto

lemma parseNode_Inr_paints:
  "parseNode L n parent = Inr s \<Longrightarrow> p \<in> set (allPaints n) \<Longrightarrow> \<exists>f. parsePaint p = Inr f"
proof (induction n arbitrary: parent s rule: measure_induct_rule [of size])
  case (less n)
  note f = parseNode_Inr [OF less.prems(1)]
  from allPaints_cases [OF less.prems(2)] show ?case
  proof (elim disjE exE conjE)
    assume "p \<in> set (typedList (n_fills n))"
    with f(1) show ?thesis by (rule parsePaints_Inr_all)
  next
    assume "p \<in> set (typedList (n_strokes n))"
    with f(2) show ?thesis by (rule parsePaints_Inr_all)
  next
    fix cs c
    assume c: "n_children n = Some cs" "c \<in> set cs" and p: "p \<in> set (allPaints c)"
    from parseChildren_Inr_all [OF f(3) c] obtain sc where "parseNode L c (Some n) = Inr sc" ..
    moreover have "size c < size n" using c by (rule size_child_direct)
    ultimately show ?thesis using p less.IH by blast
  qed
qed

lemma parseNode_Inl_paint:
  "parseNode L n parent = Inl e \<Longrightarrow> \<exists>p \<in> set (allPaints n). parsePaint p = Inl e"
proof (induction n arbitrary: parent rule: measure_induct_rule [of size])
  case (less n)
  from parseNode_InlD [OF less.prems] show ?case
  proof (elim disjE)
    assume "parsePaints (n_fills n) = Inl e"
    then show ?thesis using allPaints_own(1) [of n] by (blast dest: parsePaints_Inl)
  next
    assume "parsePaints (n_strokes n) = Inl e"
    then show ?thesis using allPaints_own(2) [of n] by (blast dest: parsePaints_Inl)
  next
    assume "parseChildren L n = Inl e"
    then obtain cs c where c: "n_children n = Some cs" "c \<in> set cs"
      and e: "parseNode L c (Some n) = Inl e"
      by (blast dest: parseChildren_Inl)
    have "size c < size n" using c by (rule size_child_direct)
    with e less.IH obtain p where "p \<in> set (allPaints c)" "parsePaint p = Inl e" by blast
    then show ?thesis using allPaints_child [OF c] by blast
  qed
qed

lemma allPaints_leaf:
  "n_children n = None \<Longrightarrow> allPaints n = typedList (n_fills n) @ typedList (n_strokes n)"
  by (subst allPaints.simps) simp

subsection \<open>Fills and strokes\<close>

text \<open>
  Claim C3, as stated, fails: a source list of fills (or strokes) that is empty still
  gives the attribute, with the empty list as its value.
\<close>

theorem fills_empty_list_counterexample:
  "map_sum id s_fills (parseNode noLayout (mkNode ''1'' None (Some (Typed [])) None None None) None)
     = Inr (Some [])
   \<and> map_sum id s_strokes (parseNode noLayout (mkNode ''1'' None None (Some (Typed [])) None None) None)
     = Inr (Some [])"
  by (simp add: parseNode_leaf eval_defs)

text \<open>
  Claim C3, amended. On a node that is transformed, the fills attribute is present if
  and only if the source field exists and is a list, empty or not; it then has one
  entry for each source entry, in the same order, which is the result of \<open>parsePaint\<close>
  on that entry. The same holds for strokes.
\<close>

theorem fills_strokes_present_iff:
  assumes "parseNode L n parent = Inr s"
  shows "(s_fills s \<noteq> None \<longleftrightarrow> (\<exists>ps. n_fills n = Some (Typed ps)))
       \<and> (\<forall>ps. n_fills n = Some (Typed ps) \<longrightarrow>
             (\<exists>fs. s_fills s = Some fs \<and> map Inr fs = map parsePaint ps))
       \<and> (s_strokes s \<noteq> None \<longleftrightarrow> (\<exists>ps. n_strokes n = Some (Typed ps)))
       \<and> (\<forall>ps. n_strokes n = Some (Typed ps) \<longrightarrow>
             (\<exists>fs. s_strokes s = Some fs \<and> map Inr fs = map parsePaint ps))"
proof -
  have f: "parsePaints (n_fills n) = Inr (s_fills s)"
    and k: "parsePaints (n_strokes n) = Inr (s_strokes s)"
    using assms by (rule parseNode_Inr)+
  have "(r \<noteq> None \<longleftrightarrow> (\<exists>ps. v = Some (Typed ps)))
       \<and> (\<forall>ps. v = Some (Typed ps) \<longrightarrow> (\<exists>fs. r = Some fs \<and> map Inr fs = map parsePaint ps))"
    if "parsePaints v = Inr r" for v r
    using that unfolding parsePaints_Inr by (auto split: option.splits dyn.splits)
  from this [OF f] this [OF k] show ?thesis by simp
qed

theorem fills_strokes_present_iff_witness:
  "map_sum id s_fills
     (parseNode noLayout (mkNode ''1'' None (Some (Typed [solidPaint (rgba 1 0 0 1)])) (Some Other) None None) None)
     = Inr (Some [(emptyFill ''SOLID'') \<lparr>f_hex := Some ''#FF0000'', f_opacity := Some 1\<rparr>])
   \<and> map_sum id s_strokes
     (parseNode noLayout (mkNode ''1'' None (Some (Typed [solidPaint (rgba 1 0 0 1)])) (Some Other) None None) None)
     = Inr None"
proof -
  let ?n = "mkNode ''1'' None (Some (Typed [solidPaint (rgba 1 0 0 1)])) (Some Other) None None"
  note p = parsePaint_red
  have e: "parseNode noLayout ?n None = Inr (SimplifiedNode ''1'' ''node'' ''FRAME'' None None None
      (Some [(emptyFill ''SOLID'') \<lparr>f_hex := Some ''#FF0000'', f_opacity := Some 1\<rparr>]) None None None
      (Some ()) None None None None)"
    by (simp add: parseNode_leaf mkNode_def parsePaints_def hasValue_def anyValue_def typedValue_def p)
  from fills_strokes_present_iff [OF e] show ?thesis by (simp add: e)
qed


subsection \<open>Stroke weight\<close>

text \<open>
  Claim C4. On a node that is transformed, the stroke weight is present if and only if
  the source stroke weight is a number and the normalized strokes list exists and is
  not empty; it is then the source value. In particular a source without strokes, or
  with an empty list of strokes, gives no stroke weight.
\<close>

theorem strokeWeight_present_iff:
  assumes "parseNode L n parent = Inr s"
  shows "(s_strokeWeight s \<noteq> None \<longleftrightarrow>
            (\<exists>w. n_strokeWeight n = Some (Typed w)) \<and> (\<exists>f fs. s_strokes s = Some (f # fs)))
       \<and> (\<forall>w. s_strokeWeight s = Some w \<longrightarrow> n_strokeWeight n = Some (Typed w))
       \<and> (n_strokes n = None \<or> n_strokes n = Some (Typed []) \<longrightarrow> s_strokeWeight s = None)"
proof -
  have w: "s_strokeWeight s =
           (case typedValue (n_strokeWeight n) of
              None \<Rightarrow> None
            | Some w \<Rightarrow> if optLength (s_strokes s) > 0 then Some w else None)"
    and k: "parsePaints (n_strokes n) = Inr (s_strokes s)"
    using assms by (rule parseNode_Inr)+
  have l: "optLength (s_strokes s) > 0 \<longleftrightarrow> (\<exists>f fs. s_strokes s = Some (f # fs))"
    by (cases "s_strokes s") (auto simp: optLength_def neq_Nil_conv)
  have e: "n_strokes n = None \<or> n_strokes n = Some (Typed []) \<longrightarrow> optLength (s_strokes s) = 0"
    using k unfolding parsePaints_Inr by (auto simp: optLength_def)
  show ?thesis
  proof (cases "typedValue (n_strokeWeight n)")
    case None
    then have "s_strokeWeight s = None" using w by simp
    moreover have "\<forall>x. n_strokeWeight n \<noteq> Some (Typed x)"
      using None by (simp add: typedValue_None)
    ultimately show ?thesis by simp
  next
    case (Some x)
    then have x: "n_strokeWeight n = Some (Typed x)" by (simp add: typedValue_eq)
    have v: "s_strokeWeight s = (if optLength (s_strokes s) > 0 then Some x else None)"
      using w Some by simp
    have "s_strokeWeight s \<noteq> None \<longleftrightarrow>
            (\<exists>w. n_strokeWeight n = Some (Typed w)) \<and> (\<exists>f fs. s_strokes s = Some (f # fs))"
      using v x l by simp
    moreover have "\<forall>w. s_strokeWeight s = Some w \<longrightarrow> n_strokeWeight n = Some (Typed w)"
      using v x by (simp split: if_splits)
    moreover have "n_strokes n = None \<or> n_strokes n = Some (Typed []) \<longrightarrow> s_strokeWeight s = None"
      using v e by simp
    ultimately show ?thesis by blast
  qed
qed

theorem strokeWeight_present_iff_witness:
  "map_sum id s_strokeWeight
     (parseNode noLayout (mkNode ''1'' None None (Some (Typed [solidPaint (rgba 1 0 0 1)])) (Some (Typed 2)) None) None)
     = Inr (Some 2)
   \<and> map_sum id s_strokeWeight
     (parseNode noLayout (mkNode ''1'' None None (Some (Typed [])) (Some (Typed 2)) None) None)
     = Inr None"
proof -
  let ?a = "mkNode ''1'' None None (Some (Typed [solidPaint (rgba 1 0 0 1)])) (Some (Typed 2)) None"
  let ?b = "mkNode ''1'' None None (Some (Typed [])) (Some (Typed 2)) None"
  have a: "parseNode noLayout ?a None = Inr (SimplifiedNode ''1'' ''node'' ''FRAME'' None None None None
      (Some [(emptyFill ''SOLID'') \<lparr>f_hex := Some ''#FF0000'', f_opacity := Some 1\<rparr>]) None None
      (Some ()) (Some 2) None None None)"
    by (simp add: parseNode_leaf mkNode_def parsePaints_def hasValue_def anyValue_def typedValue_def
          optLength_def parsePaint_red)
  have b: "parseNode noLayout ?b None = Inr (SimplifiedNode ''1'' ''node'' ''FRAME'' None None None None
      (Some []) None None (Some ()) None None None None)"
    by (simp add: parseNode_leaf mkNode_def parsePaints_def hasValue_def anyValue_def typedValue_def
          optLength_def)
  from strokeWeight_present_iff [OF a] strokeWeight_present_iff [OF b] show ?thesis
    by (simp add: a b)
qed

subsection \<open>Text style\<close>

text \<open>
  Claim C5, as stated, fails: with a line height of 0 pixels and a font size of 16, both
  operands are there, and yet the text style has no line height (the code tests the
  operands for truthiness, and 0 is falsy).
\<close>

theorem textStyle_zero_operand_counterexample:
  "map_sum id s_textStyle
     (parseNode noLayout (mkNode ''1'' (Some (styleExample (Some 16) (Some 0) None)) None None None None) None)
     = Inr (Some \<lparr>ts_fontFamily = Some ''Inter'', ts_fontWeight = None, ts_fontSize = Some 16,
                  ts_lineHeight = None, ts_letterSpacing = None, ts_textCase = None,
                  ts_textAlignHorizontal = None, ts_textAlignVertical = None\<rparr>)
   \<and> st_lineHeightPx (styleExample (Some 16) (Some 0) None) = Some 0
   \<and> st_fontSize (styleExample (Some 16) (Some 0) None) = Some 16"
  by (simp add: parseNode_leaf eval_defs parseTextStyle_def styleExample_def blankStyle_def truthy_def)

text \<open>
  Claim C5, amended. A node without a style record gets no text style. A node with one
  gets a text style that copies font family, weight and size, text case and the two
  alignments; its line height is the pixel line height divided by the font size, with
  the suffix \<open>em\<close>, and is left out when either operand is missing or 0; its letter
  spacing is the letter spacing divided by the font size, times 100, with the suffix
  \<open>%\<close>, and is left out when the letter spacing is missing or 0 or the font size is
  missing or 0. The quotient and the product are those of the program, on doubles.
\<close>

theorem textStyle_spec:
  assumes "parseNode L n parent = Inr s"
  shows "(n_style n = None \<longrightarrow> s_textStyle s = None)
       \<and> (\<forall>st. n_style n = Some st \<longrightarrow>
            (\<exists>t. s_textStyle s = Some t
               \<and> ts_fontFamily t = st_fontFamily st \<and> ts_fontWeight t = st_fontWeight st
               \<and> ts_fontSize t = st_fontSize st \<and> ts_textCase t = st_textCase st
               \<and> ts_textAlignHorizontal t = st_textAlignHorizontal st
               \<and> ts_textAlignVertical t = st_textAlignVertical st
               \<and> ts_lineHeight t =
                   (case (st_lineHeightPx st, st_fontSize st) of
                      (Some lh, Some fs) \<Rightarrow>
                        if lh \<noteq> 0 \<and> fs \<noteq> 0 then Some (NumStr (fdiv lh fs) ''em'') else None
                    | _ \<Rightarrow> None)
               \<and> ts_letterSpacing t =
                   (case (st_letterSpacing st, st_fontSize st) of
                      (Some ls, Some fs) \<Rightarrow>
                        if ls \<noteq> 0 \<and> fs \<noteq> 0 then Some (NumStr (fmul (fdiv ls fs) 100) ''%'') else None
                    | _ \<Rightarrow> None)))"
proof -
  have "s_textStyle s = map_option parseTextStyle (hasValue anyValue (n_style n))"
    using assms by (rule parseNode_Inr)
  then show ?thesis
    by (auto simp: hasValue_def anyValue_def parseTextStyle_def truthy_def split: option.splits)
qed

text \<open>
  The witness has a letter spacing of \<open>5.5\<close> at a font size of 10: the quotient is the
  double of \<open>0.55\<close>, and its product with 100 the double next above 55, which prints as
  \<open>55.00000000000001\<close>. The line height is the double of \<open>2.4\<close>.
\<close>

theorem textStyle_spec_witness:
  "map_sum id s_textStyle
     (parseNode noLayout (mkNode ''1'' (Some (styleExample (Some 10) (Some 24) (Some (11 / 2)))) None None None None) None)
     = Inr (Some \<lparr>ts_fontFamily = Some ''Inter'', ts_fontWeight = None, ts_fontSize = Some 10,
                  ts_lineHeight = Some (NumStr (5404319552844595 / 2 ^ 51) ''em''),
                  ts_letterSpacing = Some (NumStr (55 + 1 / 2 ^ 47) ''%''), ts_textCase = None,
                  ts_textAlignHorizontal = None, ts_textAlignVertical = None\<rparr>)
   \<and> map_sum id s_textStyle (parseNode noLayout (mkNode ''1'' None None None None None) None) = Inr None"
proof -
  let ?a = "mkNode ''1'' (Some (styleExample (Some 10) (Some 24) (Some (11 / 2)))) None None None None"
  let ?b = "mkNode ''1'' None None None None None"
  have d: "fdiv 24 10 = 5404319552844595 / 2 ^ 51" "fmul (fdiv (11 / 2) 10) 100 = 55 + 1 / 2 ^ 47"
    by (simp_all add: double_eval)
  obtain sa where a: "parseNode noLayout ?a None = Inr sa"
    by (simp add: parseNode_leaf eval_defs)
  obtain sb where b: "parseNode noLayout ?b None = Inr sb"
    by (simp add: parseNode_leaf eval_defs)
  from textStyle_spec [OF a] have "s_textStyle sa = Some \<lparr>ts_fontFamily = Some ''Inter'', ts_fontWeight = None, ts_fontSize = Some 10,
                  ts_lineHeight = Some (NumStr (fdiv 24 10) ''em''),
                  ts_letterSpacing = Some (NumStr (fmul (fdiv (11 / 2) 10) 100) ''%''), ts_textCase = None,
                  ts_textAlignHorizontal = None, ts_textAlignVertical = None\<rparr>"
    by (auto simp: mkNode_def styleExample_def blankStyle_def)
  moreover from textStyle_spec [OF b] have "s_textStyle sb = None"
    by (simp add: mkNode_def)
  ultimately show ?thesis by (simp only: a b d) simp
qed

subsection \<open>Presence of the optional fields\<close>

text \<open>
  Claim C8, as stated, fails: a node that carries nothing but its identifier, name and
  type still gets the layout attribute, which the layout collaborator supplies for
  every node.
\<close>

theorem layout_without_source_counterexample:
  "map_sum id s_layout (parseNode noLayout (mkNode ''1'' None None None None None) None) = Inr (Some ())"
  by (simp add: parseNode_leaf eval_defs)

text \<open>
  Claim C8, amended. On a node that is transformed, the layout attribute is always
  present (it is what the layout collaborator returns for the node and its parent) and
  the bounding box never is. Text style, fills, strokes, opacity, border radius, stroke
  dashes and per-side stroke weights are present if and only if their source data is
  present and well-typed, an empty list of fills, strokes or dashes counting as
  present. Text is present if and only if the source characters are there and not
  empty; the stroke weight if and only if the source value is a number and the source
  has a non-empty list of strokes; the children if and only if the source has a
  non-empty list of children. No other field is filled with a placeholder.
\<close>

theorem optional_fields_present_iff:
  assumes "parseNode L n parent = Inr s"
  shows "s_layout s = Some (L n parent)
       \<and> s_boundingBox s = None
       \<and> (s_text s \<noteq> None \<longleftrightarrow> (\<exists>t. n_characters n = Some t \<and> t \<noteq> []))
       \<and> (s_textStyle s \<noteq> None \<longleftrightarrow> n_style n \<noteq> None)
       \<and> (s_fills s \<noteq> None \<longleftrightarrow> (\<exists>ps. n_fills n = Some (Typed ps)))
       \<and> (s_strokes s \<noteq> None \<longleftrightarrow> (\<exists>ps. n_strokes n = Some (Typed ps)))
       \<and> (s_opacity s \<noteq> None \<longleftrightarrow> (\<exists>x. n_opacity n = Some (Typed x)))
       \<and> (s_borderRadius s \<noteq> None \<longleftrightarrow> (\<exists>x. n_cornerRadius n = Some (Typed x)))
       \<and> (s_strokeWeight s \<noteq> None \<longleftrightarrow>
            (\<exists>w. n_strokeWeight n = Some (Typed w)) \<and> (\<exists>p ps. n_strokes n = Some (Typed (p # ps))))
       \<and> (s_strokeDashes s \<noteq> None \<longleftrightarrow> (\<exists>ds. n_strokeDashes n = Some (Typed ds)))
       \<and> (s_individualStrokeWeights s \<noteq> None \<longleftrightarrow>
            (\<exists>w. n_individualStrokeWeights n = Some w \<and> isStrokeWeights w))
       \<and> (s_children s \<noteq> None \<longleftrightarrow> (\<exists>c cs. n_children n = Some (c # cs)))"
proof -
  note f = parseNode_Inr [OF assms]
  have layout: "s_layout s = Some (L n parent)" and bb: "s_boundingBox s = None"
    by (rule f)+
  have txt0: "s_text s \<noteq> None \<longleftrightarrow> (\<exists>t. n_characters n = Some t \<and> t \<noteq> [])"
    unfolding f(8) by (cases "n_characters n") (auto simp: hasValue_def isTruthy_def)
  have sty: "s_textStyle s \<noteq> None \<longleftrightarrow> n_style n \<noteq> None"
    unfolding f(9) by (cases "n_style n") (auto simp: hasValue_def anyValue_def)
  have fills: "s_fills s \<noteq> None \<longleftrightarrow> (\<exists>ps. n_fills n = Some (Typed ps))"
    using f(1) unfolding parsePaints_Inr by (auto split: option.splits dyn.splits)
  have strokes: "s_strokes s \<noteq> None \<longleftrightarrow> (\<exists>ps. n_strokes n = Some (Typed ps))"
    using f(2) unfolding parsePaints_Inr by (auto split: option.splits dyn.splits)
  have nonempty: "(\<exists>x xs. s_strokes s = Some (x # xs)) \<longleftrightarrow> (\<exists>p ps. n_strokes n = Some (Typed (p # ps)))"
    using f(2) unfolding parsePaints_Inr
    by (auto split: option.splits dyn.splits simp: map_eq_Cons_conv Cons_eq_map_conv)
  have opacity: "s_opacity s \<noteq> None \<longleftrightarrow> (\<exists>x. n_opacity n = Some (Typed x))"
    unfolding f(10) using typedValue_eq [of "n_opacity n"] by auto
  have radius: "s_borderRadius s \<noteq> None \<longleftrightarrow> (\<exists>x. n_cornerRadius n = Some (Typed x))"
    unfolding f(11) using typedValue_eq [of "n_cornerRadius n"] by auto
  have weight: "s_strokeWeight s \<noteq> None \<longleftrightarrow>
      (\<exists>w. n_strokeWeight n = Some (Typed w)) \<and> (\<exists>p ps. n_strokes n = Some (Typed (p # ps)))"
  proof (cases "typedValue (n_strokeWeight n)")
    case None
    then have "s_strokeWeight s = None" using f(13) by simp
    moreover have "\<forall>x. n_strokeWeight n \<noteq> Some (Typed x)"
      using None by (simp add: typedValue_None)
    ultimately show ?thesis by simp
  next
    case (Some x)
    then have "n_strokeWeight n = Some (Typed x)" by (simp add: typedValue_eq)
    moreover have "s_strokeWeight s = (if optLength (s_strokes s) > 0 then Some x else None)"
      using f(13) Some by simp
    moreover have "optLength (s_strokes s) > 0 \<longleftrightarrow> (\<exists>x xs. s_strokes s = Some (x # xs))"
      by (cases "s_strokes s") (auto simp: optLength_def neq_Nil_conv)
    ultimately show ?thesis unfolding nonempty [symmetric] by simp
  qed
  have dashes: "s_strokeDashes s \<noteq> None \<longleftrightarrow> (\<exists>ds. n_strokeDashes n = Some (Typed ds))"
    unfolding f(14) using typedValue_eq [of "n_strokeDashes n"] by auto
  have sides: "s_individualStrokeWeights s \<noteq> None \<longleftrightarrow>
      (\<exists>w. n_individualStrokeWeights n = Some w \<and> isStrokeWeights w)"
    unfolding f(15) by (cases "n_individualStrokeWeights n") (auto simp: hasValue_def)
  have children: "s_children s \<noteq> None \<longleftrightarrow> (\<exists>c cs. n_children n = Some (c # cs))"
    using f(3) by (rule parseChildren_Inr)
  show ?thesis
    using layout bb txt0 sty fills strokes opacity radius weight dashes sides children
    by (intro conjI)
qed


theorem optional_fields_present_iff_witness:
  "map_sum id s_layout (parseNode noLayout
      (Node ''1'' ''n'' ''TEXT'' (Some []) None None None (Some (Typed 2)) None None (Some (Typed 0)) None (Some [])) None)
     = Inr (Some ())
   \<and> map_sum id s_text (parseNode noLayout
      (Node ''1'' ''n'' ''TEXT'' (Some []) None None None (Some (Typed 2)) None None (Some (Typed 0)) None (Some [])) None)
     = Inr None
   \<and> map_sum id s_opacity (parseNode noLayout
      (Node ''1'' ''n'' ''TEXT'' (Some []) None None None (Some (Typed 2)) None None (Some (Typed 0)) None (Some [])) None)
     = Inr (Some 0)
   \<and> map_sum id s_strokeWeight (parseNode noLayout
      (Node ''1'' ''n'' ''TEXT'' (Some []) None None None (Some (Typed 2)) None None (Some (Typed 0)) None (Some [])) None)
     = Inr None
   \<and> map_sum id s_children (parseNode noLayout
      (Node ''1'' ''n'' ''TEXT'' (Some []) None None None (Some (Typed 2)) None None (Some (Typed 0)) None (Some [])) None)
     = Inr None"
proof -
  let ?n = "Node ''1'' ''n'' ''TEXT'' (Some []) None None None (Some (Typed 2)) None None (Some (Typed 0)) None (Some [])"
  have e: "parseNode noLayout ?n None = Inr (SimplifiedNode ''1'' ''n'' ''TEXT'' None None None None None
      (Some 0) None (Some ()) None None None None)"
    by (simp add: parseNode_leaf eval_defs)
  from optional_fields_present_iff [OF e] show ?thesis by (simp add: e)
qed

subsection \<open>Failure on an unknown paint\<close>

text \<open>
  Claim C7, as stated, fails: where a paint that lacks a field of its kind, here a
  solid paint without a colour, comes before the paint with the unknown tag, the
  transformation fails with the \<open>TypeError\<close> of the missing field, not with the
  unknown-paint-type error.
\<close>

theorem unknown_paint_other_error_counterexample:
  "parseNode noLayout mixedFillsExample None = Inl TypeError
   \<and> blankPaint ''EMOJI'' \<in> set (allPaints mixedFillsExample)
   \<and> p_type (blankPaint ''EMOJI'') \<notin> set recognizedPaintTypes"
proof -
  have "parseNode noLayout mixedFillsExample None = Inl TypeError"
    by (simp add: mixedFillsExample_def parseNode_leaf mkNode_def parsePaints_def hasValue_def
          anyValue_def parsePaint_examples)
  moreover have "blankPaint ''EMOJI'' \<in> set (allPaints mixedFillsExample)"
    by (simp add: allPaints_leaf mixedFillsExample_def mkNode_def typedList_def)
  moreover have "p_type (blankPaint ''EMOJI'') \<notin> set recognizedPaintTypes"
    by (simp add: blankPaint_def recognizedPaintTypes_def)
  ultimately show ?thesis by simp
qed

text \<open>
  Claim C7, amended. For a tree that has a paint with an unrecognized tag anywhere, in
  the fills or strokes of a node at any depth, \<open>parseNode\<close> on the root fails: it
  returns no tree, partial or whole, and nothing catches the error. When every paint
  of the tree carries the fields of its kind (a solid paint its colour, a gradient
  paint its stop list with a colour on every stop), the error is the
  unknown-paint-type error of an unrecognized tag.
\<close>

theorem unknown_paint_fails:
  assumes "\<exists>p \<in> set (allPaints n). p_type p \<notin> set recognizedPaintTypes"
  shows "(\<exists>e. parseNode L n parent = Inl e)
       \<and> ((\<forall>p \<in> set (allPaints n). hasRequiredFields p) \<longrightarrow>
            (\<exists>t. t \<notin> set recognizedPaintTypes \<and> parseNode L n parent = Inl (UnknownPaintType t)))"
proof -
  from assms obtain p where p: "p \<in> set (allPaints n)" "p_type p \<notin> set recognizedPaintTypes"
    by blast
  have "\<nexists>s. parseNode L n parent = Inr s"
  proof
    assume "\<exists>s. parseNode L n parent = Inr s"
    then obtain s where "parseNode L n parent = Inr s" ..
    then have "\<exists>f. parsePaint p = Inr f" using p(1) by (rule parseNode_Inr_paints)
    with parsePaint_unknown_Inl [OF p(2)] show False by simp
  qed
  then obtain e where e: "parseNode L n parent = Inl e"
    by (cases "parseNode L n parent") auto
  then obtain q where q: "q \<in> set (allPaints n)" "parsePaint q = Inl e"
    by (blast dest: parseNode_Inl_paint)
  have "\<exists>t. t \<notin> set recognizedPaintTypes \<and> parseNode L n parent = Inl (UnknownPaintType t)"
    if a: "\<forall>p \<in> set (allPaints n). hasRequiredFields p"
  proof -
    from a q(1) have "hasRequiredFields q" ..
    with parsePaint_Inl_cases [OF q(2)]
    have "e = UnknownPaintType (p_type q)" "p_type q \<notin> set recognizedPaintTypes" by blast+
    with e show ?thesis by blast
  qed
  with e show ?thesis by blast
qed


theorem unknown_paint_fails_witness:
  "blankPaint ''EMOJI'' \<in> set (allPaints deepExample)
   \<and> p_type (blankPaint ''EMOJI'') \<notin> set recognizedPaintTypes
   \<and> list_all hasRequiredFields (allPaints deepExample)
   \<and> parseNode noLayout deepExample None = Inl (UnknownPaintType ''EMOJI'')"
proof -
  let ?kid = "mkNode ''kid'' None None (Some (Typed [blankPaint ''EMOJI''])) None None"
  have k: "parseNode noLayout ?kid (Some deepExample) = Inl (UnknownPaintType ''EMOJI'')"
    by (simp add: parseNode_leaf mkNode_def parsePaints_def hasValue_def anyValue_def parsePaint_examples)
  have c: "n_children deepExample = Some [?kid]"
    by (simp add: deepExample_def mkNode_def)
  have "set (allPaints ?kid) \<subseteq> set (allPaints deepExample)"
    using c by (rule allPaints_child) simp
  moreover have "blankPaint ''EMOJI'' \<in> set (allPaints ?kid)"
    by (simp add: allPaints_leaf mkNode_def typedList_def)
  ultimately have m: "blankPaint ''EMOJI'' \<in> set (allPaints deepExample)" by (rule subsetD)
  have u: "p_type (blankPaint ''EMOJI'') \<notin> set recognizedPaintTypes"
    by (simp add: blankPaint_def recognizedPaintTypes_def)
  have "parseChildren noLayout deepExample = Inl (UnknownPaintType ''EMOJI'')"
    by (simp add: parseChildren_def c hasValue_def anyValue_def k)
  moreover have "parsePaints (n_fills deepExample) = Inr (Some [(emptyFill ''SOLID'') \<lparr>f_hex := Some ''#FF0000'', f_opacity := Some 1\<rparr>])"
    by (simp add: deepExample_def mkNode_def parsePaints_def hasValue_def anyValue_def parsePaint_red)
  moreover have "parsePaints (n_strokes deepExample) = Inr None"
    by (simp add: deepExample_def mkNode_def parsePaints_def hasValue_def)
  ultimately have e: "parseNode noLayout deepExample None = Inl (UnknownPaintType ''EMOJI'')"
    by (simp add: parseNode_unfold)
  have x: "\<exists>p \<in> set (allPaints deepExample). p_type p \<notin> set recognizedPaintTypes"
    using u m by (rule bexI)
  have "allPaints deepExample = [solidPaint (rgba 1 0 0 1), blankPaint ''EMOJI'']"
    by (subst allPaints.simps) (simp add: allPaints_leaf deepExample_def mkNode_def typedList_def)
  moreover have "hasRequiredFields (solidPaint (rgba 1 0 0 1))" "hasRequiredFields (blankPaint ''EMOJI'')"
    by (simp_all add: hasRequiredFields_def solidPaint_def blankPaint_def gradientTypes_def)
  ultimately have y: "\<forall>p \<in> set (allPaints deepExample). hasRequiredFields p" by simp
  from unknown_paint_fails [OF x, of noLayout None] y
  have "\<exists>t. t \<notin> set recognizedPaintTypes \<and> parseNode noLayout deepExample None = Inl (UnknownPaintType t)"
    by (rule conjunct2 [THEN mp])
  with m u e y show ?thesis by (simp add: list_all_iff)
qed

end
